theory Spec2Isabelle
  imports Main
begin

section \<open>The Contact table\<close>

text \<open>
  The program is one Express handler, \<^verbatim>\<open>POST /identify\<close>, over one PostgreSQL table
  (\<^verbatim>\<open>src/index.ts\<close>). The table is modelled as the list of its rows together with the
  sequence behind the \<^verbatim>\<open>SERIAL\<close> key. Every \<^verbatim>\<open>SELECT\<close> is a filter of that list: SQL
  leaves the order of a \<^verbatim>\<open>SELECT\<close> without \<^verbatim>\<open>ORDER BY\<close> open, and the model fixes it as
  the order of insertion, with an \<^verbatim>\<open>UPDATE\<close> rewriting a row where it stands. Every
  statement is its own transaction, as the source issues each one through \<^verbatim>\<open>pool.query\<close>
  on its own, and requests run one after the other. \<^verbatim>\<open>NOW()\<close> is the parameter \<open>now\<close> of
  a request. A statement fails where the schema of \<^verbatim>\<open>initDB\<close> rejects it; a lost
  connection is not modelled.
\<close>

datatype linkprecedence_t = Primary | Secondary

text \<open>\<^verbatim>\<open>interface Contact\<close>; the field \<^verbatim>\<open>id\<close> is \<open>id_c\<close> here (\<open>id\<close> is HOL's identity).
  \<open>None\<close> is SQL \<^verbatim>\<open>NULL\<close> / JavaScript \<^verbatim>\<open>null\<close>. The three timestamps are \<^verbatim>\<open>TIMESTAMP\<close>
  columns, which hold microseconds: they are microseconds since the epoch here.\<close>

record Contact =
  id_c :: int
  phonenumber :: "string option"
  email :: "string option"
  linkedid :: "int option"
  linkprecedence :: linkprecedence_t
  createdat :: int
  updateat :: int
  deletedat :: "int option"

record db =
  contact :: "Contact list"
  contact_id_seq :: int

datatype error = TypeError | DatabaseError

subsection \<open>JavaScript and SQL primitives\<close>

text \<open>Truthiness of a request field (\<^verbatim>\<open>undefined\<close>, \<^verbatim>\<open>null\<close> and \<^verbatim>\<open>""\<close> are falsy) and
  of a \<^verbatim>\<open>linkedid\<close> (\<^verbatim>\<open>null\<close> and \<^verbatim>\<open>0\<close> are falsy).\<close>

definition truthy_str :: "string option \<Rightarrow> bool" where
  "truthy_str v = (case v of None \<Rightarrow> False | Some s \<Rightarrow> s \<noteq> [])"

definition truthy_num :: "int option \<Rightarrow> bool" where
  "truthy_num v = (case v of None \<Rightarrow> False | Some n \<Rightarrow> n \<noteq> 0)"

text \<open>\<^verbatim>\<open>new Date(t).getTime()\<close> of a stored timestamp: the driver hands a \<^verbatim>\<open>TIMESTAMP\<close> over
  as a \<^verbatim>\<open>Date\<close>, which keeps whole milliseconds and drops the microseconds.\<close>

definition getTime :: "int \<Rightarrow> int" where
  "getTime t = t div 1000"

text \<open>SQL \<^verbatim>\<open>a = b\<close> inside a \<^verbatim>\<open>WHERE\<close>: a row is kept only when the comparison is true,
  and a comparison with \<^verbatim>\<open>NULL\<close> is never true.\<close>

definition sql_eq :: "'a option \<Rightarrow> 'a option \<Rightarrow> bool" where
  "sql_eq a b = (case a of None \<Rightarrow> False | Some x \<Rightarrow> b = Some x)"

text \<open>\<^verbatim>\<open>Set.prototype.add\<close> and \<^verbatim>\<open>new Set(xs)\<close> spread back into an array: insertion
  order, first occurrence kept.\<close>

definition set_add :: "'a list \<Rightarrow> 'a \<Rightarrow> 'a list" where
  "set_add s x = (if x \<in> set s then s else s @ [x])"

definition new_Set :: "'a list \<Rightarrow> 'a list" where
  "new_Set xs = foldl set_add [] xs"

text \<open>\<^verbatim>\<open>Map.prototype.set\<close>: a key already present keeps its position and takes the new
  value; a new key goes last.\<close>

fun map_set :: "('k \<times> 'v) list \<Rightarrow> 'k \<Rightarrow> 'v \<Rightarrow> ('k \<times> 'v) list" where
  "map_set [] k v = [(k, v)]"
| "map_set ((k', v') # m) k v = (if k' = k then (k, v) # m else (k', v') # map_set m k v)"

text \<open>Storing a string into a \<^verbatim>\<open>VARCHAR(n)\<close> column: a longer value is an error
  (\<^verbatim>\<open>value too long for type character varying(n)\<close>) unless the excess is all spaces,
  which PostgreSQL cuts off.\<close>

definition varchar :: "nat \<Rightarrow> string option \<Rightarrow> error + string option" where
  "varchar n v =
     (case v of
        None \<Rightarrow> Inr None
      | Some s \<Rightarrow>
          if length s \<le> n then Inr (Some s)
          else if list_all (\<lambda>ch. ch = CHR '' '') (drop n s) then Inr (Some (take n s))
          else Inl DatabaseError)"

subsection \<open>The store helpers of \<^verbatim>\<open>src/index.ts\<close>\<close>

definition findContactsByEmailOrPhone :: "string option \<Rightarrow> string option \<Rightarrow> db \<Rightarrow> Contact list" where
  "findContactsByEmailOrPhone em phone d =
     (if \<not> truthy_str em \<and> \<not> truthy_str phone then []
      else filter (\<lambda>c. (sql_eq (email c) em \<or> sql_eq (phonenumber c) phone) \<and> deletedat c = None)
             (contact d))"

text \<open>\<^verbatim>\<open>createContact\<close>: one \<^verbatim>\<open>INSERT ... RETURNING *\<close>. The key comes from the sequence;
  a rejected \<^verbatim>\<open>INSERT\<close> leaves the table and the sequence as they were. The two \<^verbatim>\<open>VARCHAR\<close>
  columns (\<^verbatim>\<open>email VARCHAR(255)\<close>, \<^verbatim>\<open>phonenumber VARCHAR(15)\<close> in \<^verbatim>\<open>initDB\<close>) can reject
  the row. The \<^verbatim>\<open>CHECK\<close> on \<^verbatim>\<open>linkprecedence\<close> holds by the type; the foreign key on
  \<^verbatim>\<open>linkedid\<close> holds at every call of the handler, which passes the key of a row it has
  just read from a table that never loses a row.\<close>

definition createContact ::
  "int \<Rightarrow> string option \<Rightarrow> string option \<Rightarrow> int option \<Rightarrow> linkprecedence_t \<Rightarrow> db
     \<Rightarrow> (error + Contact) \<times> db" where
  "createContact now em phone lid prec d =
     (case varchar 15 phone of
        Inl e \<Rightarrow> (Inl e, d)
      | Inr phone' \<Rightarrow>
         (case varchar 255 em of
            Inl e \<Rightarrow> (Inl e, d)
          | Inr em' \<Rightarrow>
             (let nid = contact_id_seq d + 1;
                  row = \<lparr>id_c = nid, phonenumber = phone', email = em', linkedid = lid,
                         linkprecedence = prec, createdat = now, updateat = now,
                         deletedat = None\<rparr>
              in (Inr row, d\<lparr>contact := contact d @ [row], contact_id_seq := nid\<rparr>))))"

definition updateContact :: "int \<Rightarrow> int \<Rightarrow> int option \<Rightarrow> linkprecedence_t \<Rightarrow> db \<Rightarrow> db" where
  "updateContact now i lid prec d =
     d\<lparr>contact :=
         map (\<lambda>c. if id_c c = i
                   then c\<lparr>linkedid := lid, linkprecedence := prec, updateat := now\<rparr>
                   else c)
           (contact d)\<rparr>"

definition updateSecondaryLinks :: "int \<Rightarrow> int \<Rightarrow> int \<Rightarrow> db \<Rightarrow> db" where
  "updateSecondaryLinks now oldPrimaryId newPrimaryId d =
     d\<lparr>contact :=
         map (\<lambda>c. if sql_eq (linkedid c) (Some oldPrimaryId)
                   then c\<lparr>linkedid := Some newPrimaryId, updateat := now\<rparr>
                   else c)
           (contact d)\<rparr>"

definition getAllContactsLinkedToPrimary :: "int \<Rightarrow> db \<Rightarrow> Contact list" where
  "getAllContactsLinkedToPrimary primaryId d =
     filter (\<lambda>c. (id_c c = primaryId \<or> sql_eq (linkedid c) (Some primaryId)) \<and> deletedat c = None)
       (contact d)"

definition getAllEmails :: "Contact list \<Rightarrow> string list" where
  "getAllEmails contacts = new_Set (map the (filter (\<lambda>e. e \<noteq> None) (map email contacts)))"

definition getAllPhones :: "Contact list \<Rightarrow> string list" where
  "getAllPhones contacts = new_Set (map the (filter (\<lambda>p. p \<noteq> None) (map phonenumber contacts)))"

subsection \<open>The response builder\<close>

record response =
  primaryContactId :: int
  emails :: "string list"
  phoneNumbers :: "string list"
  secondaryContactIds :: "int list"

text \<open>\<^verbatim>\<open>contacts.find(...)!\<close> is \<^verbatim>\<open>undefined\<close> when no contact is primary, and reading
  \<^verbatim>\<open>primary.id\<close> then throws a \<^verbatim>\<open>TypeError\<close>.\<close>

definition buildResponse :: "Contact list \<Rightarrow> error + response" where
  "buildResponse contacts =
     (case find (\<lambda>c. linkprecedence c = Primary) contacts of
        None \<Rightarrow> Inl TypeError
      | Some primary \<Rightarrow>
          Inr \<lparr>primaryContactId = id_c primary,
               emails = getAllEmails contacts,
               phoneNumbers = getAllPhones contacts,
               secondaryContactIds =
                 map id_c (filter (\<lambda>c. linkprecedence c = Secondary) contacts)\<rparr>)"

subsection \<open>The handler\<close>

text \<open>Step 1: the keys of the primaries involved, a \<^verbatim>\<open>Set<number>\<close> filled by
  \<^verbatim>\<open>forEach\<close>, and the rows read back for them.\<close>

definition primaryIdSet :: "Contact list \<Rightarrow> int list" where
  "primaryIdSet existingContacts =
     foldl (\<lambda>s c. if linkprecedence c = Primary then set_add s (id_c c)
                   else if truthy_num (linkedid c) then set_add s (the (linkedid c))
                   else s)
       [] existingContacts"

definition primaryContactsFromDb :: "int list \<Rightarrow> db \<Rightarrow> Contact list" where
  "primaryContactsFromDb ids d =
     (if ids \<noteq> [] then filter (\<lambda>c. id_c c \<in> set ids \<and> deletedat c = None) (contact d)
      else [])"

definition allContactsOf :: "Contact list \<Rightarrow> Contact list \<Rightarrow> Contact list" where
  "allContactsOf existingContacts fromDb =
     map snd (foldl (\<lambda>m c. map_set m (id_c c) c) [] (existingContacts @ fromDb))"

text \<open>Step 2: the primaries, sorted by \<^verbatim>\<open>new Date(createdat).getTime()\<close>;
  \<^verbatim>\<open>Array.prototype.sort\<close> is stable, as \<open>sort_key\<close> is, so primaries created in the same
  millisecond keep the order they have in \<^verbatim>\<open>allContacts\<close>.\<close>

definition allPrimaryContactsOf :: "Contact list \<Rightarrow> Contact list" where
  "allPrimaryContactsOf allContacts =
     sort_key (\<lambda>c. getTime (createdat c)) (filter (\<lambda>c. linkprecedence c = Primary) allContacts)"

text \<open>Step 3: the loop over \<^verbatim>\<open>allPrimaryContacts[1..]\<close>.\<close>

fun demote :: "int \<Rightarrow> int \<Rightarrow> Contact list \<Rightarrow> db \<Rightarrow> db" where
  "demote now ultimateId [] d = d"
| "demote now ultimateId (primaryToDemote # rest) d =
     demote now ultimateId rest
       (updateSecondaryLinks now (id_c primaryToDemote) ultimateId
          (updateContact now (id_c primaryToDemote) (Some ultimateId) Secondary d))"

text \<open>The candidates of a request against a store, as the handler computes them before
  its first write.\<close>

definition allContacts :: "string option \<Rightarrow> string option \<Rightarrow> db \<Rightarrow> Contact list" where
  "allContacts em phone d =
     (let existingContacts = findContactsByEmailOrPhone em phone d
      in allContactsOf existingContacts
           (primaryContactsFromDb (primaryIdSet existingContacts) d))"

definition allPrimaryContacts :: "string option \<Rightarrow> string option \<Rightarrow> db \<Rightarrow> Contact list" where
  "allPrimaryContacts em phone d = allPrimaryContactsOf (allContacts em phone d)"

definition isNewEmail :: "string option \<Rightarrow> string option \<Rightarrow> db \<Rightarrow> bool" where
  "isNewEmail em phone d =
     (truthy_str em \<and> the em \<notin> set (getAllEmails (allContacts em phone d)))"

definition isNewPhone :: "string option \<Rightarrow> string option \<Rightarrow> db \<Rightarrow> bool" where
  "isNewPhone em phone d =
     (truthy_str phone \<and> the phone \<notin> set (getAllPhones (allContacts em phone d)))"

text \<open>The body of the \<^verbatim>\<open>try\<close> block. The result is the response or the exception thrown,
  and the store as the statements executed so far have left it. When no primary is
  found, \<^verbatim>\<open>ultimatePrimary\<close> is \<^verbatim>\<open>undefined\<close>: the merge loop is skipped and the first
  read of \<^verbatim>\<open>ultimatePrimary.id\<close> (in step 4 or in step 5) throws before any write.\<close>

definition identify_body ::
  "int \<Rightarrow> string option \<Rightarrow> string option \<Rightarrow> db \<Rightarrow> (error + response) \<times> db" where
  "identify_body now em phone d =
     (if findContactsByEmailOrPhone em phone d = [] then
        (case createContact now em phone None Primary d of
           (Inl e, d') \<Rightarrow> (Inl e, d')
         | (Inr newContact, d') \<Rightarrow>
             (Inr \<lparr>primaryContactId = id_c newContact,
                   emails = map the (filter truthy_str [email newContact]),
                   phoneNumbers = map the (filter truthy_str [phonenumber newContact]),
                   secondaryContactIds = []\<rparr>, d'))
      else
        (case allPrimaryContacts em phone d of
           [] \<Rightarrow> (Inl TypeError, d)
         | ultimatePrimary # toDemote \<Rightarrow>
             (let d1 = demote now (id_c ultimatePrimary) toDemote d
              in if isNewEmail em phone d \<or> isNewPhone em phone d then
                   (case createContact now
                           (if isNewEmail em phone d then em else None)
                           (if isNewPhone em phone d then phone else None)
                           (Some (id_c ultimatePrimary)) Secondary d1 of
                      (Inl e, d2) \<Rightarrow> (Inl e, d2)
                    | (Inr newContact, d2) \<Rightarrow>
                        (buildResponse (getAllContactsLinkedToPrimary (id_c ultimatePrimary) d2), d2))
                 else
                   (buildResponse (getAllContactsLinkedToPrimary (id_c ultimatePrimary) d1), d1))))"

text \<open>The handler: \<^verbatim>\<open>res.json(response)\<close>, or \<^verbatim>\<open>res.status(500)\<close> from the \<^verbatim>\<open>catch\<close>.\<close>

datatype http = Json response | InternalServerError

definition identify :: "int \<Rightarrow> string option \<Rightarrow> string option \<Rightarrow> db \<Rightarrow> http \<times> db" where
  "identify now em phone d =
     (case identify_body now em phone d of
        (Inl e, d') \<Rightarrow> (InternalServerError, d')
      | (Inr r, d') \<Rightarrow> (Json r, d'))"


subsection \<open>The queries of the earlier revision\<close>

text \<open>
  The repository also holds an earlier revision of the same file. Its handler reads the
  properties \<^verbatim>\<open>linkPrecedence\<close>, \<^verbatim>\<open>linkedId\<close> and \<^verbatim>\<open>phoneNumber\<close> of the rows, while
  PostgreSQL folds the unquoted column names of \<^verbatim>\<open>CREATE TABLE\<close> to lower case, so the
  rows carry \<^verbatim>\<open>linkprecedence\<close>, \<^verbatim>\<open>linkedid\<close> and \<^verbatim>\<open>phonenumber\<close>; it takes the primaries
  from the matched contacts only; and two of its \<^verbatim>\<open>WHERE\<close> clauses lack the parentheses
  that \<^verbatim>\<open>src/index.ts\<close> adds and notes in its comments. \<^verbatim>\<open>src/index.ts\<close> is the program
  verified here. The two clauses are kept to record what the correction changes:
  \<^verbatim>\<open>AND\<close> binds tighter than \<^verbatim>\<open>OR\<close>, so \<^verbatim>\<open>deletedAt IS NULL\<close> guards only the last
  disjunct.
\<close>

definition getAllContactsLinkedToPrimary_rev0 :: "int \<Rightarrow> db \<Rightarrow> Contact list" where
  "getAllContactsLinkedToPrimary_rev0 primaryId d =
     filter (\<lambda>c. id_c c = primaryId \<or> (sql_eq (linkedid c) (Some primaryId) \<and> deletedat c = None))
       (contact d)"

definition getAllLinkedContacts_rev0 :: "Contact list \<Rightarrow> db \<Rightarrow> Contact list" where
  "getAllLinkedContacts_rev0 contacts d =
     (let primaryIds = map id_c (filter (\<lambda>c. linkprecedence c = Primary) contacts)
      in if primaryIds = [] then contacts
         else filter (\<lambda>c. (case linkedid c of None \<Rightarrow> False | Some p \<Rightarrow> p \<in> set primaryIds) \<or>
                           (id_c c \<in> set primaryIds \<and> deletedat c = None))
                (contact d))"

subsection \<open>Constraints of the schema and invariants of the data model\<close>

text \<open>\<^verbatim>\<open>id SERIAL PRIMARY KEY\<close>: keys are unique and were issued by the sequence;
  \<^verbatim>\<open>FOREIGN KEY (linkedid) REFERENCES Contact(id)\<close>: a link names a row of the table.\<close>

definition unique_ids :: "db \<Rightarrow> bool" where
  "unique_ids d = distinct (map id_c (contact d))"

definition ids_issued :: "db \<Rightarrow> bool" where
  "ids_issued d = list_all (\<lambda>c. id_c c \<le> contact_id_seq d) (contact d)"

definition links_resolve :: "db \<Rightarrow> bool" where
  "links_resolve d =
     list_all (\<lambda>c. case linkedid c of None \<Rightarrow> True | Some p \<Rightarrow> p \<in> set (map id_c (contact d)))
       (contact d)"

text \<open>The data model of the specification: only a secondary carries a link, every
  secondary carries one, and a link never leads to a secondary.\<close>

definition primaries_unlinked :: "db \<Rightarrow> bool" where
  "primaries_unlinked d =
     list_all (\<lambda>c. linkprecedence c = Secondary \<or> linkedid c = None) (contact d)"

definition secondaries_linked :: "db \<Rightarrow> bool" where
  "secondaries_linked d =
     list_all (\<lambda>c. linkprecedence c = Primary \<or> truthy_num (linkedid c)) (contact d)"

definition no_chain :: "db \<Rightarrow> bool" where
  "no_chain d =
     list_all (\<lambda>c. list_all (\<lambda>t. linkedid c \<noteq> Some (id_c t) \<or> linkprecedence t = Primary) (contact d))
       (contact d)"

text \<open>A value that a \<^verbatim>\<open>VARCHAR(n)\<close> column stores as it is.\<close>

definition fits :: "nat \<Rightarrow> string option \<Rightarrow> bool" where
  "fits n v = (case v of None \<Rightarrow> True | Some s \<Rightarrow> length s \<le> n)"

subsection \<open>The merge loop in closed form\<close>

text \<open>What the loop of step 3 does to one row, given the keys of the demoted primaries:
  used to reason about \<open>demote\<close>, and proved equal to it in \<open>contact_demote\<close>.\<close>

definition demote_row :: "int \<Rightarrow> int \<Rightarrow> int list \<Rightarrow> Contact \<Rightarrow> Contact" where
  "demote_row now ultimateId ids c =
     (if id_c c \<in> set ids
      then c\<lparr>linkedid := Some ultimateId, linkprecedence := Secondary, updateat := now\<rparr>
      else if (case linkedid c of None \<Rightarrow> False | Some p \<Rightarrow> p \<in> set ids)
      then c\<lparr>linkedid := Some ultimateId, updateat := now\<rparr>
      else c)"

subsection \<open>The store without its soft-deleted rows\<close>

definition purge :: "db \<Rightarrow> db" where
  "purge d = d\<lparr>contact := filter (\<lambda>c. deletedat c = None) (contact d)\<rparr>"

subsection \<open>The resolver as the specification words it\<close>

text \<open>Steps 2, 5, 6 and 7 of the specification's resolver, written from its words and
  compared with the handler below. Step 2: each matched contact resolves to the key of
  its cluster's primary, its own key when it is primary and its \<^verbatim>\<open>linkedId\<close> when it is
  secondary. Step 5: the full membership of the candidate clusters is every primary
  plus every contact linked to one, without the deleted ones. Steps 6 and 7: a submitted
  value is new when it is present and not among the values of that membership; a value
  is present when it is supplied and not empty (section 6 of the specification).\<close>

definition spec_clusters :: "Contact list \<Rightarrow> int list" where
  "spec_clusters seed =
     concat (map (\<lambda>c. case linkprecedence c of
                         Primary \<Rightarrow> [id_c c]
                       | Secondary \<Rightarrow> (case linkedid c of None \<Rightarrow> [] | Some p \<Rightarrow> [p])) seed)"

definition spec_membership :: "string option \<Rightarrow> string option \<Rightarrow> db \<Rightarrow> Contact list" where
  "spec_membership em phone d =
     (let clusters = spec_clusters (findContactsByEmailOrPhone em phone d)
      in filter (\<lambda>c. deletedat c = None \<and>
                     (id_c c \<in> set clusters \<or>
                      (case linkedid c of None \<Rightarrow> False | Some p \<Rightarrow> p \<in> set clusters)))
           (contact d))"

definition spec_isNewEmail :: "string option \<Rightarrow> string option \<Rightarrow> db \<Rightarrow> bool" where
  "spec_isNewEmail em phone d =
     (case em of
        None \<Rightarrow> False
      | Some e \<Rightarrow> e \<noteq> [] \<and> \<not> list_ex (\<lambda>c. email c = Some e) (spec_membership em phone d))"

definition spec_isNewPhone :: "string option \<Rightarrow> string option \<Rightarrow> db \<Rightarrow> bool" where
  "spec_isNewPhone em phone d =
     (case phone of
        None \<Rightarrow> False
      | Some p \<Rightarrow> p \<noteq> [] \<and> \<not> list_ex (\<lambda>c. phonenumber c = Some p) (spec_membership em phone d))"

text \<open>The primaries a request involves, read off the store: a live primary row that matches,
  or that a matched secondary is linked to (steps 2 and 3 of the specification).\<close>

definition involved :: "string option \<Rightarrow> string option \<Rightarrow> db \<Rightarrow> Contact \<Rightarrow> bool" where
  "involved em phone d c =
     (deletedat c = None \<and> linkprecedence c = Primary \<and>
      list_ex (\<lambda>s. s = c \<or> (linkprecedence s = Secondary \<and> linkedid s = Some (id_c c)))
        (findContactsByEmailOrPhone em phone d))"

text \<open>The precondition of idempotence in the specification's words: only one candidate
  cluster exists, its primary is a live row, and the cluster already contains the
  submitted email and phone.\<close>

definition fully_matches_one_cluster :: "string option \<Rightarrow> string option \<Rightarrow> db \<Rightarrow> bool" where
  "fully_matches_one_cluster em phone d =
     (case remdups (spec_clusters (findContactsByEmailOrPhone em phone d)) of
        [p] \<Rightarrow>
          list_ex (\<lambda>c. id_c c = p \<and> linkprecedence c = Primary \<and> deletedat c = None) (contact d) \<and>
          \<not> spec_isNewEmail em phone d \<and> \<not> spec_isNewPhone em phone d
      | _ \<Rightarrow> False)"

subsection \<open>Example rows\<close>

definition ex_A :: Contact where
  "ex_A = \<lparr>id_c = 1, phonenumber = Some ''111'', email = Some ''a@x.com'', linkedid = None,
           linkprecedence = Primary, createdat = 10000, updateat = 10000, deletedat = None\<rparr>"

definition ex_B :: Contact where
  "ex_B = \<lparr>id_c = 2, phonenumber = Some ''222'', email = Some ''b@x.com'', linkedid = None,
           linkprecedence = Primary, createdat = 20000, updateat = 20000, deletedat = None\<rparr>"

definition ex_C :: Contact where
  "ex_C = \<lparr>id_c = 3, phonenumber = Some ''333'', email = Some ''b@x.com'', linkedid = Some 2,
           linkprecedence = Secondary, createdat = 30000, updateat = 30000, deletedat = None\<rparr>"

text \<open>Two primaries created 400 microseconds apart, in the same millisecond, and a
  secondary of the older one.\<close>

definition ex_E :: Contact where
  "ex_E = \<lparr>id_c = 1, phonenumber = Some ''111'', email = Some ''e@x.com'', linkedid = None,
           linkprecedence = Primary, createdat = 1000000, updateat = 1000000, deletedat = None\<rparr>"

definition ex_F :: Contact where
  "ex_F = \<lparr>id_c = 2, phonenumber = Some ''222'', email = Some ''f@x.com'', linkedid = None,
           linkprecedence = Primary, createdat = 1000400, updateat = 1000400, deletedat = None\<rparr>"

definition ex_G :: Contact where
  "ex_G = \<lparr>id_c = 3, phonenumber = None, email = Some ''g@x.com'', linkedid = Some 1,
           linkprecedence = Secondary, createdat = 2000000, updateat = 2000000, deletedat = None\<rparr>"

definition ex_db :: db where
  "ex_db = \<lparr>contact = [ex_A, ex_B, ex_C], contact_id_seq = 3\<rparr>"

definition ex_D :: Contact where
  "ex_D = \<lparr>id_c = 1, phonenumber = Some ''111'', email = Some ''d@x.com'', linkedid = None,
           linkprecedence = Primary, createdat = 10000, updateat = 40000, deletedat = Some 40000\<rparr>"

definition ex_S :: Contact where
  "ex_S = \<lparr>id_c = 2, phonenumber = Some ''111'', email = Some ''s@x.com'', linkedid = Some 1,
           linkprecedence = Secondary, createdat = 20000, updateat = 20000, deletedat = None\<rparr>"

definition ex_A2 :: Contact where
  "ex_A2 = \<lparr>id_c = 2, phonenumber = Some ''222'', email = Some ''a@x.com'', linkedid = None,
            linkprecedence = Primary, createdat = 20000, updateat = 20000, deletedat = None\<rparr>"

section \<open>Properties\<close>

lemmas model_defs =
  getTime_def identify_def identify_body_def findContactsByEmailOrPhone_def createContact_def
  updateContact_def updateSecondaryLinks_def getAllContactsLinkedToPrimary_def
  getAllEmails_def getAllPhones_def buildResponse_def primaryIdSet_def
  primaryContactsFromDb_def allContactsOf_def allPrimaryContactsOf_def allContacts_def
  allPrimaryContacts_def isNewEmail_def isNewPhone_def truthy_str_def truthy_num_def
  sql_eq_def set_add_def new_Set_def varchar_def

lemmas ex_defs = ex_A_def ex_A2_def ex_B_def ex_C_def ex_D_def ex_S_def ex_db_def

subsection \<open>Sets, maps and sorting\<close>

lemma set_foldl_set_add: "set (foldl set_add acc xs) = set acc \<union> set xs"
  by (induction xs arbitrary: acc) (auto simp: set_add_def)

lemma set_new_Set [simp]: "set (new_Set xs) = set xs"
  by (simp add: new_Set_def set_foldl_set_add)

lemma distinct_foldl_set_add: "distinct acc \<Longrightarrow> distinct (foldl set_add acc xs)"
  by (induction xs arbitrary: acc) (auto simp: set_add_def)

lemma distinct_new_Set [simp]: "distinct (new_Set xs)"
  by (simp add: new_Set_def distinct_foldl_set_add)

lemma map_set_keys: "fst ` set (map_set m k v) = insert k (fst ` set m)"
  by (induction m k v rule: map_set.induct) auto

lemma map_set_vals: "snd ` set (map_set m k v) \<subseteq> insert v (snd ` set m)"
  by (induction m k v rule: map_set.induct) auto

lemma map_set_distinct: "distinct (map fst m) \<Longrightarrow> distinct (map fst (map_set m k v))"
  by (induction m k v rule: map_set.induct) (auto simp: map_set_keys)

lemma map_set_keyed:
  "\<forall>kv \<in> set m. fst kv = f (snd kv) \<Longrightarrow> k = f v \<Longrightarrow> \<forall>kv \<in> set (map_set m k v). fst kv = f (snd kv)"
  by (induction m k v rule: map_set.induct) auto

lemma map_set_as_set_add:
  assumes "\<forall>kv \<in> set m. fst kv = f (snd kv)" and "inj_on f (insert v (snd ` set m))"
  shows "map snd (map_set m (f v) v) = set_add (map snd m) v"
  using assms
proof (induction m)
  case Nil
  then show ?case by (simp add: set_add_def)
next
  case (Cons kv m)
  obtain k' v' where kv: "kv = (k', v')" by (cases kv)
  have k': "k' = f v'" using Cons.prems(1) kv by simp
  have inj: "inj_on f (insert v (snd ` set m))"
    using Cons.prems(2) by (rule inj_on_subset) auto
  have keyed: "\<forall>kv \<in> set m. fst kv = f (snd kv)" using Cons.prems(1) by simp
  have IH: "map snd (map_set m (f v) v) = set_add (map snd m) v"
    by (rule Cons.IH [OF keyed inj])
  show ?case
  proof (cases "f v' = f v")
    case True
    have "v' = v" by (rule inj_onD [OF Cons.prems(2) True]) (simp_all add: kv)
    then show ?thesis unfolding kv k' by (simp add: set_add_def)
  next
    case False
    then have "v' \<noteq> v" by auto
    then show ?thesis using False IH unfolding kv k' by (auto simp: set_add_def)
  qed
qed


lemma foldl_map_set_vals:
  "snd ` set (foldl (\<lambda>m c. map_set m (f c) c) m cs) \<subseteq> snd ` set m \<union> set cs"
proof (induction cs arbitrary: m)
  case Nil
  show ?case by simp
next
  case (Cons c cs)
  have "snd ` set (foldl (\<lambda>m c. map_set m (f c) c) (map_set m (f c) c) cs)
          \<subseteq> snd ` set (map_set m (f c) c) \<union> set cs"
    by (rule Cons.IH)
  also have "\<dots> \<subseteq> insert c (snd ` set m) \<union> set cs"
    using map_set_vals [of m "f c" c] by blast
  finally show ?case by auto
qed

lemma foldl_map_set_distinct:
  "distinct (map fst m) \<Longrightarrow> distinct (map fst (foldl (\<lambda>m c. map_set m (f c) c) m cs))"
  by (induction cs arbitrary: m) (simp_all add: map_set_distinct)

lemma foldl_map_set_keyed:
  "\<forall>kv \<in> set m. fst kv = f (snd kv) \<Longrightarrow>
   \<forall>kv \<in> set (foldl (\<lambda>m c. map_set m (f c) c) m cs). fst kv = f (snd kv)"
proof (induction cs arbitrary: m)
  case Nil
  then show ?case by simp
next
  case (Cons c cs)
  have "\<forall>kv \<in> set (map_set m (f c) c). fst kv = f (snd kv)"
    by (rule map_set_keyed [OF Cons.prems refl])
  then show ?case using Cons.IH by simp
qed

lemma foldl_map_set_as_set_add:
  assumes "\<forall>kv \<in> set m. fst kv = f (snd kv)" and "inj_on f (snd ` set m \<union> set cs)"
  shows "map snd (foldl (\<lambda>m c. map_set m (f c) c) m cs) = foldl set_add (map snd m) cs"
  using assms
proof (induction cs arbitrary: m)
  case Nil
  show ?case by simp
next
  case (Cons c cs)
  let ?m1 = "map_set m (f c) c"
  have inj1: "inj_on f (insert c (snd ` set m))"
    using Cons.prems(2) by (rule inj_on_subset) auto
  have step: "map snd ?m1 = set_add (map snd m) c"
    by (rule map_set_as_set_add [OF Cons.prems(1) inj1])
  have keyed1: "\<forall>kv \<in> set ?m1. fst kv = f (snd kv)"
    by (rule map_set_keyed [OF Cons.prems(1) refl])
  have "snd ` set ?m1 \<union> set cs \<subseteq> snd ` set m \<union> set (c # cs)"
    using map_set_vals [of m "f c" c] by auto
  then have inj2: "inj_on f (snd ` set ?m1 \<union> set cs)"
    using Cons.prems(2) by (rule inj_on_subset [rotated])
  show ?case using Cons.IH [OF keyed1 inj2] step by simp
qed

lemma allContactsOf_subset: "set (allContactsOf ex fdb) \<subseteq> set ex \<union> set fdb"
  using foldl_map_set_vals [of id_c "[]" "ex @ fdb"] by (simp add: allContactsOf_def)

lemma allContactsOf_distinct_ids: "distinct (map id_c (allContactsOf ex fdb))"
proof -
  let ?m = "foldl (\<lambda>m c. map_set m (id_c c) c) [] (ex @ fdb)"
  have keyed: "\<forall>kv \<in> set ?m. fst kv = id_c (snd kv)"
    by (rule foldl_map_set_keyed) simp
  have d: "distinct (map fst ?m)"
    by (rule foldl_map_set_distinct) simp
  have eq: "map id_c (map snd ?m) = map fst ?m"
    using keyed by simp
  show ?thesis unfolding allContactsOf_def eq by (rule d)
qed

lemma allContactsOf_new_Set:
  "inj_on id_c (set ex \<union> set fdb) \<Longrightarrow> allContactsOf ex fdb = new_Set (ex @ fdb)"
  using foldl_map_set_as_set_add [of "[]" id_c "ex @ fdb"]
  by (simp add: allContactsOf_def new_Set_def)

lemma distinct_map_insort_key:
  "distinct (map g (insort_key f x xs)) = (g x \<notin> g ` set xs \<and> distinct (map g xs))"
  by (induction xs) (auto simp: set_insort_key)

lemma distinct_map_sort_key: "distinct (map g (sort_key f xs)) = distinct (map g xs)"
  by (induction xs) (simp_all add: distinct_map_insort_key)

lemma sorted_head_least:
  "sort_key f xs = u # rest \<Longrightarrow> p \<in> set rest \<Longrightarrow> f u \<le> f p"
  using sorted_sort_key [of f xs] by simp


lemma demote_row_step:
  assumes "u \<noteq> p" and "u \<notin> set ids"
  shows "demote_row now u ids
           ((\<lambda>c. if sql_eq (linkedid c) (Some p) then c\<lparr>linkedid := Some u, updateat := now\<rparr> else c)
              ((\<lambda>c. if id_c c = p
                     then c\<lparr>linkedid := Some u, linkprecedence := Secondary, updateat := now\<rparr>
                     else c) c))
         = demote_row now u (p # ids) c"
  using assms by (cases "linkedid c") (auto simp: demote_row_def sql_eq_def)

lemma demote_row_Nil: "demote_row now u [] = (\<lambda>c. c)"
  by (rule ext) (simp add: demote_row_def split: option.split)

lemma contact_demote:
  "u \<notin> set (map id_c ds) \<Longrightarrow>
   contact (demote now u ds d) = map (demote_row now u (map id_c ds)) (contact d)"
proof (induction ds arbitrary: d)
  case Nil
  show ?case by (simp add: demote_row_Nil)
next
  case (Cons p ds)
  let ?d1 = "updateSecondaryLinks now (id_c p) u (updateContact now (id_c p) (Some u) Secondary d)"
  have u: "u \<noteq> id_c p" "u \<notin> set (map id_c ds)" using Cons.prems by auto
  have "contact (demote now u (p # ds) d) = map (demote_row now u (map id_c ds)) (contact ?d1)"
    using Cons.IH [OF u(2)] by simp
  also have "\<dots> = map (demote_row now u (map id_c (p # ds))) (contact d)"
    using demote_row_step [OF u, of now]
    by (simp add: updateSecondaryLinks_def updateContact_def)
  finally show ?case .
qed

lemma contact_id_seq_demote [simp]: "contact_id_seq (demote now u ds d) = contact_id_seq d"
  by (induction ds arbitrary: d) (simp_all add: updateSecondaryLinks_def updateContact_def)

lemma demote_row_keeps [simp]:
  "id_c (demote_row now u ids c) = id_c c"
  "email (demote_row now u ids c) = email c"
  "phonenumber (demote_row now u ids c) = phonenumber c"
  "createdat (demote_row now u ids c) = createdat c"
  "deletedat (demote_row now u ids c) = deletedat c"
  by (simp_all add: demote_row_def)

lemma findContacts_sound:
  "c \<in> set (findContactsByEmailOrPhone em phone d) \<Longrightarrow> c \<in> set (contact d) \<and> deletedat c = None"
  by (auto simp: findContactsByEmailOrPhone_def split: if_splits)

lemma primaryContactsFromDb_sound:
  "c \<in> set (primaryContactsFromDb ids d) \<Longrightarrow> c \<in> set (contact d) \<and> deletedat c = None"
  by (auto simp: primaryContactsFromDb_def split: if_splits)

lemma allContacts_sound:
  "c \<in> set (allContacts em phone d) \<Longrightarrow> c \<in> set (contact d) \<and> deletedat c = None"
  using allContactsOf_subset findContacts_sound primaryContactsFromDb_sound
  unfolding allContacts_def Let_def by blast

lemma allContacts_distinct_ids: "distinct (map id_c (allContacts em phone d))"
  by (simp add: allContacts_def Let_def allContactsOf_distinct_ids)

lemma set_allPrimaryContacts:
  "set (allPrimaryContacts em phone d) =
     {c \<in> set (allContacts em phone d). linkprecedence c = Primary}"
  by (auto simp: allPrimaryContacts_def allPrimaryContactsOf_def)

lemma allPrimaryContacts_sound:
  "c \<in> set (allPrimaryContacts em phone d) \<Longrightarrow>
     c \<in> set (contact d) \<and> deletedat c = None \<and> linkprecedence c = Primary"
  by (auto simp: set_allPrimaryContacts dest: allContacts_sound)

lemma allPrimaryContacts_distinct_ids: "distinct (map id_c (allPrimaryContacts em phone d))"
  using allContacts_distinct_ids [of em phone d]
  by (simp add: allPrimaryContacts_def allPrimaryContactsOf_def distinct_map_sort_key distinct_map_filter)

lemma allPrimaryContacts_head_oldest:
  "allPrimaryContacts em phone d = u # rest \<Longrightarrow> p \<in> set rest \<Longrightarrow>
     getTime (createdat u) \<le> getTime (createdat p)"
  unfolding allPrimaryContacts_def allPrimaryContactsOf_def by (rule sorted_head_least)

lemma fits_varchar: "fits n v \<Longrightarrow> varchar n v = Inr v"
  by (cases v) (simp_all add: fits_def varchar_def)

lemma falsy_fits: "\<not> truthy_str v \<Longrightarrow> varchar n v = Inr v"
  by (cases v) (simp_all add: truthy_str_def varchar_def)

lemma find_filter: "find P xs = (case filter P xs of [] \<Rightarrow> None | x # _ \<Rightarrow> Some x)"
  by (induction xs) auto

lemma createContact_cases:
  "createContact now e p l pr d = (res, d') \<Longrightarrow>
     (case res of
        Inl x \<Rightarrow> d' = d
      | Inr row \<Rightarrow> contact d' = contact d @ [row] \<and> contact_id_seq d' = contact_id_seq d + 1 \<and>
          id_c row = contact_id_seq d + 1 \<and>
          linkedid row = l \<and> linkprecedence row = pr \<and> deletedat row = None \<and>
          Inr (email row) = varchar 255 e \<and> Inr (phonenumber row) = varchar 15 p \<and>
          createdat row = now \<and> updateat row = now)"
  by (auto simp: createContact_def Let_def split: sum.splits)

lemma createContact_fits:
  "fits 255 e \<Longrightarrow> fits 15 p \<Longrightarrow>
   createContact now e p l pr d =
     (Inr \<lparr>id_c = contact_id_seq d + 1, phonenumber = p, email = e, linkedid = l,
            linkprecedence = pr, createdat = now, updateat = now, deletedat = None\<rparr>,
      d\<lparr>contact := contact d @
           [\<lparr>id_c = contact_id_seq d + 1, phonenumber = p, email = e, linkedid = l,
             linkprecedence = pr, createdat = now, updateat = now, deletedat = None\<rparr>],
        contact_id_seq := contact_id_seq d + 1\<rparr>)"
  by (simp add: createContact_def Let_def fits_varchar)

lemma no_match_no_primaries:
  "findContactsByEmailOrPhone em phone d = [] \<Longrightarrow> allPrimaryContacts em phone d = []"
  by (simp add: allPrimaryContacts_def allContacts_def allPrimaryContactsOf_def
      allContactsOf_def primaryIdSet_def primaryContactsFromDb_def)

lemma demote_row_precedence:
  "id_c c \<notin> set ids \<Longrightarrow> linkprecedence (demote_row now u ids c) = linkprecedence c"
  by (simp add: demote_row_def)

lemma head_not_demoted:
  "allPrimaryContacts em phone d = u # rest \<Longrightarrow> id_c u \<notin> set (map id_c rest)"
  using allPrimaryContacts_distinct_ids [of em phone d] by simp

lemma contact_demote_candidates:
  "allPrimaryContacts em phone d = u # rest \<Longrightarrow>
   contact (demote now (id_c u) rest d) =
     map (demote_row now (id_c u) (map id_c rest)) (contact d)"
  by (rule contact_demote [OF head_not_demoted])

lemma final_has_primary:
  assumes prims: "allPrimaryContacts em phone d = u # rest"
    and rows: "contact d2 = contact (demote now (id_c u) rest d) @ extra"
  shows "\<exists>r. buildResponse (getAllContactsLinkedToPrimary (id_c u) d2) = Inr r"
proof -
  let ?u' = "demote_row now (id_c u) (map id_c rest) u"
  have u: "u \<in> set (contact d)" "deletedat u = None" "linkprecedence u = Primary"
    using allPrimaryContacts_sound [of u em phone d] prims by simp_all
  have "?u' \<in> set (contact d2)"
    using u(1) by (simp add: rows contact_demote_candidates [OF prims])
  moreover have "linkprecedence ?u' = Primary"
    using demote_row_precedence [OF head_not_demoted [OF prims]] u(3) by simp
  ultimately have "?u' \<in> set (getAllContactsLinkedToPrimary (id_c u) d2)
      \<and> linkprecedence ?u' = Primary"
    using u(2) by (simp add: getAllContactsLinkedToPrimary_def)
  then have "find (\<lambda>c. linkprecedence c = Primary) (getAllContactsLinkedToPrimary (id_c u) d2) \<noteq> None"
    by (auto simp: find_None_iff)
  then show ?thesis by (auto simp: buildResponse_def)
qed

subsection \<open>Soft-deleted rows do not take part\<close>

lemma findContacts_purge [simp]:
  "findContactsByEmailOrPhone em phone (purge d) = findContactsByEmailOrPhone em phone d"
  by (auto simp: findContactsByEmailOrPhone_def purge_def intro: filter_cong)

lemma primaryContactsFromDb_purge [simp]:
  "primaryContactsFromDb ids (purge d) = primaryContactsFromDb ids d"
  by (auto simp: primaryContactsFromDb_def purge_def intro: filter_cong)

lemma allContacts_purge [simp]: "allContacts em phone (purge d) = allContacts em phone d"
  by (simp add: allContacts_def)

lemma allPrimaryContacts_purge [simp]:
  "allPrimaryContacts em phone (purge d) = allPrimaryContacts em phone d"
  by (simp add: allPrimaryContacts_def)

lemma isNew_purge [simp]:
  "isNewEmail em phone (purge d) = isNewEmail em phone d"
  "isNewPhone em phone (purge d) = isNewPhone em phone d"
  by (simp_all add: isNewEmail_def isNewPhone_def)

lemma getAllContactsLinkedToPrimary_purge [simp]:
  "getAllContactsLinkedToPrimary p (purge d) = getAllContactsLinkedToPrimary p d"
  by (auto simp: getAllContactsLinkedToPrimary_def purge_def intro: filter_cong)

lemma updateContact_purge:
  "updateContact now i l pr (purge d) = purge (updateContact now i l pr d)"
  by (simp add: updateContact_def purge_def filter_map comp_def if_distrib [of deletedat]
      cong: if_cong)

lemma updateSecondaryLinks_purge:
  "updateSecondaryLinks now p q (purge d) = purge (updateSecondaryLinks now p q d)"
  by (simp add: updateSecondaryLinks_def purge_def filter_map comp_def if_distrib [of deletedat]
      cong: if_cong)

lemma demote_purge: "demote now u ds (purge d) = purge (demote now u ds d)"
  by (induction ds arbitrary: d) (simp_all add: updateContact_purge updateSecondaryLinks_purge)

lemma createContact_purge:
  "createContact now e p l pr (purge d) =
     (fst (createContact now e p l pr d), purge (snd (createContact now e p l pr d)))"
  by (simp add: createContact_def purge_def Let_def split: sum.splits)

lemma identify_body_purge:
  "identify_body now em phone (purge d) =
     (fst (identify_body now em phone d), purge (snd (identify_body now em phone d)))"
  by (simp add: identify_body_def Let_def demote_purge createContact_purge
      split: list.splits prod.splits sum.splits)

subsection \<open>The matched path\<close>

lemma primaries_unlinkedD:
  "primaries_unlinked d \<Longrightarrow> c \<in> set (contact d) \<Longrightarrow> linkprecedence c = Primary \<Longrightarrow>
     linkedid c = None"
  by (auto simp: primaries_unlinked_def list_all_iff)

lemma demote_row_demoted:
  "id_c c \<in> set ids \<Longrightarrow>
     linkprecedence (demote_row now u ids c) = Secondary \<and>
     linkedid (demote_row now u ids c) = Some u"
  by (simp add: demote_row_def)

lemma demote_row_unlinked:
  "id_c c \<notin> set ids \<Longrightarrow> linkedid c = None \<Longrightarrow> demote_row now u ids c = c"
  by (simp add: demote_row_def)

lemma getAllContactsLinkedToPrimary_iff:
  "c \<in> set (getAllContactsLinkedToPrimary p d) \<longleftrightarrow>
     c \<in> set (contact d) \<and> (id_c c = p \<or> linkedid c = Some p) \<and> deletedat c = None"
  by (cases "linkedid c") (auto simp: getAllContactsLinkedToPrimary_def sql_eq_def)

lemma buildResponse_Inr:
  "buildResponse cs = Inr r \<Longrightarrow>
     (\<exists>x \<in> set cs. linkprecedence x = Primary \<and> primaryContactId r = id_c x) \<and>
     secondaryContactIds r = map id_c (filter (\<lambda>c. linkprecedence c = Secondary) cs) \<and>
     emails r = getAllEmails cs \<and> phoneNumbers r = getAllPhones cs"
  by (auto simp: buildResponse_def find_Some_iff split: option.splits)

lemma matched_response:
  assumes prims: "allPrimaryContacts em phone d = u # rest"
    and unl: "primaries_unlinked d"
    and rows: "contact d2 = contact (demote now (id_c u) rest d) @ extra"
    and extra: "\<forall>row \<in> set extra. linkprecedence row = Secondary"
  shows "\<exists>r. buildResponse (getAllContactsLinkedToPrimary (id_c u) d2) = Inr r \<and>
           primaryContactId r = id_c u \<and> id_c ` set rest \<subseteq> set (secondaryContactIds r)"
proof -
  let ?ids = "map id_c rest"
  let ?f = "demote_row now (id_c u) ?ids"
  let ?final = "getAllContactsLinkedToPrimary (id_c u) d2"
  have rows': "contact d2 = map ?f (contact d) @ extra"
    using rows contact_demote_candidates [OF prims] by simp
  obtain r where r: "buildResponse ?final = Inr r"
    using final_has_primary [OF prims rows] by blast
  obtain x where x: "x \<in> set ?final" "linkprecedence x = Primary" "primaryContactId r = id_c x"
    using buildResponse_Inr [OF r] by blast
  have "x \<in> set (contact d2)" and x_sel: "id_c x = id_c u \<or> linkedid x = Some (id_c u)"
    using x(1) by (simp_all add: getAllContactsLinkedToPrimary_iff)
  then obtain c where c: "c \<in> set (contact d)" "x = ?f c"
    using rows' extra x(2) by auto
  have "id_c c \<notin> set ?ids"
    using demote_row_demoted [of c ?ids now "id_c u"] x(2) c(2) by auto
  moreover from this have "linkprecedence c = Primary"
    using demote_row_precedence [of c ?ids now "id_c u"] x(2) c(2) by simp
  ultimately have "x = c" "linkedid c = None"
    using primaries_unlinkedD [OF unl c(1)] demote_row_unlinked [of c ?ids now "id_c u"] c(2)
    by simp_all
  then have prim: "primaryContactId r = id_c u" using x_sel x(3) by simp
  have "id_c p \<in> set (secondaryContactIds r)" if p: "p \<in> set rest" for p
  proof -
    have p0: "p \<in> set (contact d)" "deletedat p = None"
      using allPrimaryContacts_sound [of p em phone d] prims p by simp_all
    have dem: "linkprecedence (?f p) = Secondary" "linkedid (?f p) = Some (id_c u)"
      using demote_row_demoted [of p ?ids now "id_c u"] p by simp_all
    have "?f p \<in> set (contact d2)" using p0(1) rows' by simp
    then have "?f p \<in> set ?final"
      using dem(2) p0(2) by (simp add: getAllContactsLinkedToPrimary_iff)
    then have "id_c p \<in> id_c ` {c \<in> set ?final. linkprecedence c = Secondary}"
      using dem(1) by (intro image_eqI [of _ _ "?f p"]) simp_all
    then show ?thesis using buildResponse_Inr [OF r] by simp
  qed
  then show ?thesis using r prim by blast
qed

lemma found_if_primaries:
  "allPrimaryContacts em phone d = u # rest \<Longrightarrow> findContactsByEmailOrPhone em phone d \<noteq> []"
  using no_match_no_primaries by fastforce

text \<open>The store a matched request ends with, and the answer when nothing was rejected.\<close>

lemma identify_matched:
  assumes prims: "allPrimaryContacts em phone d = u # rest"
  shows "\<exists>extra. contact (snd (identify now em phone d)) =
           contact (demote now (id_c u) rest d) @ extra \<and>
         (\<forall>row \<in> set extra. linkprecedence row = Secondary \<and> linkedid row = Some (id_c u) \<and>
            id_c row = contact_id_seq d + 1 \<and> deletedat row = None) \<and>
         (fits 255 em \<and> fits 15 phone \<longrightarrow>
            length extra = (if isNewEmail em phone d \<or> isNewPhone em phone d then 1 else 0) \<and>
            (\<exists>r. buildResponse
                   (getAllContactsLinkedToPrimary (id_c u) (snd (identify now em phone d))) = Inr r \<and>
                 fst (identify now em phone d) = Json r))"
proof -
  let ?d1 = "demote now (id_c u) rest d"
  note ne = found_if_primaries [OF prims]
  show ?thesis
  proof (cases "isNewEmail em phone d \<or> isNewPhone em phone d")
    case False
    have s: "snd (identify now em phone d) = ?d1"
      using False prims ne by (simp add: identify_def identify_body_def Let_def split: sum.splits)
    obtain r where r: "buildResponse (getAllContactsLinkedToPrimary (id_c u) ?d1) = Inr r"
      using final_has_primary [OF prims, of ?d1 now "[]"] by auto
    then have "fst (identify now em phone d) = Json r"
      using False prims ne by (simp add: identify_def identify_body_def Let_def)
    then show ?thesis using s r False by (intro exI [of _ "[]"]) simp
  next
    case True
    let ?e = "if isNewEmail em phone d then em else None"
    let ?p = "if isNewPhone em phone d then phone else None"
    obtain res d2 where c: "createContact now ?e ?p (Some (id_c u)) Secondary ?d1 = (res, d2)"
      by (cases "createContact now ?e ?p (Some (id_c u)) Secondary ?d1")
    have s: "snd (identify now em phone d) = d2"
      using True prims ne c by (simp add: identify_def identify_body_def Let_def split: sum.splits)
    show ?thesis
    proof (cases res)
      case (Inl e)
      have "\<not> (fits 255 em \<and> fits 15 phone)"
      proof
        assume "fits 255 em \<and> fits 15 phone"
        then have "fits 255 ?e" "fits 15 ?p" by (simp_all add: fits_def)
        then show False using c Inl by (simp add: createContact_fits)
      qed
      then show ?thesis using s createContact_cases [OF c] Inl
        by (intro exI [of _ "[]"]) auto
    next
      case (Inr row)
      have row: "contact d2 = contact ?d1 @ [row]" "linkprecedence row = Secondary"
        "linkedid row = Some (id_c u)" "id_c row = contact_id_seq d + 1" "deletedat row = None"
        using createContact_cases [OF c] Inr by simp_all
      obtain r where r: "buildResponse (getAllContactsLinkedToPrimary (id_c u) d2) = Inr r"
        using final_has_primary [OF prims row(1)] by auto
      then have "fst (identify now em phone d) = Json r"
        using True prims ne c Inr by (simp add: identify_def identify_body_def Let_def)
      then show ?thesis using s r row True by (intro exI [of _ "[row]"]) simp
    qed
  qed
qed

subsection \<open>Invariants of the store\<close>

lemma no_chain_iff:
  "no_chain d \<longleftrightarrow>
     (\<forall>c \<in> set (contact d). \<forall>t \<in> set (contact d).
        linkedid c = Some (id_c t) \<longrightarrow> linkprecedence t = Primary)"
  by (auto simp: no_chain_def list_all_iff)

lemma ids_issuedD: "ids_issued d \<Longrightarrow> c \<in> set (contact d) \<Longrightarrow> id_c c \<le> contact_id_seq d"
  by (simp add: ids_issued_def list_all_iff)

lemma links_resolveD:
  "links_resolve d \<Longrightarrow> c \<in> set (contact d) \<Longrightarrow> linkedid c = Some p \<Longrightarrow>
     \<exists>t \<in> set (contact d). id_c t = p"
  by (fastforce simp: links_resolve_def list_all_iff image_iff split: option.splits)

lemma unique_idsD:
  "unique_ids d \<Longrightarrow> c \<in> set (contact d) \<Longrightarrow> t \<in> set (contact d) \<Longrightarrow> id_c c = id_c t \<Longrightarrow>
     c = t"
  unfolding unique_ids_def by (metis distinct_map inj_onD)

lemma demote_row_link:
  "linkedid (demote_row now u ids c) = Some u \<or>
   (demote_row now u ids c = c \<and> id_c c \<notin> set ids \<and> (\<forall>p. linkedid c = Some p \<longrightarrow> p \<notin> set ids))"
  by (cases "linkedid c") (auto simp: demote_row_def)

lemma demote_row_relinks:
  "linkedid c = Some p \<Longrightarrow> p \<in> set ids \<Longrightarrow> linkedid (demote_row now u ids c) = Some u"
  by (simp add: demote_row_def)

lemma identify_no_match_store:
  "findContactsByEmailOrPhone em phone d = [] \<Longrightarrow>
     snd (identify now em phone d) = snd (createContact now em phone None Primary d)"
  by (simp add: identify_def identify_body_def split: prod.splits sum.splits)

lemma identify_no_primary_store:
  "findContactsByEmailOrPhone em phone d \<noteq> [] \<Longrightarrow> allPrimaryContacts em phone d = [] \<Longrightarrow>
     snd (identify now em phone d) = d"
  by (simp add: identify_def identify_body_def)

lemma no_chain_no_match:
  assumes "no_chain d" and nm: "findContactsByEmailOrPhone em phone d = []"
  shows "no_chain (snd (identify now em phone d))"
proof -
  obtain res d' where c: "createContact now em phone None Primary d = (res, d')"
    by (cases "createContact now em phone None Primary d")
  have "no_chain d'"
  proof (cases res)
    case (Inl e)
    then have "contact d' = contact d" using createContact_cases [OF c] by simp
    then show ?thesis using assms(1) by (simp add: no_chain_def)
  next
    case (Inr row)
    then have "contact d' = contact d @ [row]" "linkedid row = None" "linkprecedence row = Primary"
      using createContact_cases [OF c] by simp_all
    then show ?thesis using assms(1) unfolding no_chain_iff by auto
  qed
  then show ?thesis using identify_no_match_store [OF nm, of now] c by simp
qed

lemma no_chain_matched:
  assumes uniq: "unique_ids d" and issued: "ids_issued d" and res: "links_resolve d"
    and nc: "no_chain d"
    and prims: "allPrimaryContacts em phone d = u # rest"
  shows "no_chain (snd (identify now em phone d))"
proof -
  let ?ids = "map id_c rest"
  let ?f = "demote_row now (id_c u) ?ids"
  let ?d' = "snd (identify now em phone d)"
  obtain extra where rows: "contact ?d' = contact (demote now (id_c u) rest d) @ extra"
    and extra: "\<forall>row \<in> set extra. linkprecedence row = Secondary \<and> linkedid row = Some (id_c u) \<and>
            id_c row = contact_id_seq d + 1 \<and> deletedat row = None"
    using identify_matched [OF prims, of now] by blast
  have rows': "contact ?d' = map ?f (contact d) @ extra"
    using rows contact_demote_candidates [OF prims] by simp
  have u: "u \<in> set (contact d)" "linkprecedence u = Primary"
    using allPrimaryContacts_sound [of u em phone d] prims by simp_all
  have u_keeps: "linkprecedence (?f u) = Primary"
    using demote_row_precedence [OF head_not_demoted [OF prims]] u(2) by simp
  have fresh: "id_c t \<noteq> contact_id_seq d + 1" if "t \<in> set (contact d)" for t
    using ids_issuedD [OF issued that] by simp
  have target_u: "linkprecedence t' = Primary"
    if t': "t' \<in> set (contact ?d')" "id_c t' = id_c u" for t'
  proof -
    have "t' \<notin> set extra" using extra fresh [OF u(1)] t'(2) by auto
    then obtain t where t: "t \<in> set (contact d)" "t' = ?f t" using t'(1) rows' by auto
    then have "t = u" using unique_idsD [OF uniq t(1) u(1)] t'(2) by simp
    then show ?thesis using u_keeps t(2) by simp
  qed
  have "linkprecedence t' = Primary"
    if c': "c' \<in> set (contact ?d')" and t': "t' \<in> set (contact ?d')"
      and link: "linkedid c' = Some (id_c t')" for c' t'
  proof (cases "linkedid c' = Some (id_c u)")
    case True
    then show ?thesis using target_u [OF t'] link by simp
  next
    case False
    then have "c' \<notin> set extra" using extra by auto
    then obtain c where c: "c \<in> set (contact d)" "c' = ?f c" using c' rows' by auto
    then have same: "?f c = c" and out: "\<forall>p. linkedid c = Some p \<longrightarrow> p \<notin> set ?ids"
      using demote_row_link [of now "id_c u" ?ids c] False by auto
    then have link0: "linkedid c = Some (id_c t')" using link c(2) by simp
    obtain t0 where t0: "t0 \<in> set (contact d)" "id_c t0 = id_c t'"
      using links_resolveD [OF res c(1) link0] by blast
    have "t' \<notin> set extra" using extra fresh [OF t0(1)] t0(2) by auto
    then obtain t where t: "t \<in> set (contact d)" "t' = ?f t" using t' rows' by auto
    have "id_c t \<notin> set ?ids" using out link0 t(2) by simp
    then have "linkprecedence t' = linkprecedence t"
      using demote_row_precedence [of t ?ids now "id_c u"] t(2) by simp
    moreover have "linkprecedence t = Primary"
      using nc c(1) t(1) link0 t(2) unfolding no_chain_iff by simp
    ultimately show ?thesis by simp
  qed
  then show ?thesis unfolding no_chain_iff by blast
qed

lemma reparented_to_ultimate:
  assumes prims: "allPrimaryContacts em phone d = u # rest" and b: "b \<in> set rest"
  shows "(\<forall>i < length (contact d). linkedid (contact d ! i) = Some (id_c b) \<longrightarrow>
            linkedid (contact (snd (identify now em phone d)) ! i) = Some (id_c u)) \<and>
         (\<forall>c \<in> set (contact (snd (identify now em phone d))). linkedid c \<noteq> Some (id_c b))"
proof -
  let ?ids = "map id_c rest"
  let ?f = "demote_row now (id_c u) ?ids"
  let ?d' = "snd (identify now em phone d)"
  obtain extra where rows: "contact ?d' = contact (demote now (id_c u) rest d) @ extra"
    and extra: "\<forall>row \<in> set extra. linkprecedence row = Secondary \<and> linkedid row = Some (id_c u) \<and>
            id_c row = contact_id_seq d + 1 \<and> deletedat row = None"
    using identify_matched [OF prims, of now] by blast
  have rows': "contact ?d' = map ?f (contact d) @ extra"
    using rows contact_demote_candidates [OF prims] by simp
  have ub: "id_c u \<noteq> id_c b" and bin: "id_c b \<in> set ?ids"
    using head_not_demoted [OF prims] b by auto
  have 1: "linkedid (contact ?d' ! i) = Some (id_c u)"
    if "i < length (contact d)" "linkedid (contact d ! i) = Some (id_c b)" for i
    using that bin by (simp add: rows' nth_append demote_row_relinks)
  have 2: "linkedid c' \<noteq> Some (id_c b)" if c': "c' \<in> set (contact ?d')" for c'
  proof (cases "c' \<in> set extra")
    case True
    then show ?thesis using extra ub by auto
  next
    case False
    then obtain c where "c \<in> set (contact d)" "c' = ?f c" using c' rows' by auto
    then show ?thesis using demote_row_link [of now "id_c u" ?ids c] ub bin by auto
  qed
  show ?thesis using 1 2 by blast
qed

subsection \<open>The candidates under unique keys\<close>

lemma unique_ids_inj: "unique_ids d \<Longrightarrow> inj_on id_c (set (contact d))"
  by (simp add: unique_ids_def distinct_map)

lemma set_allContacts:
  assumes "unique_ids d"
  shows "set (allContacts em phone d) =
     set (findContactsByEmailOrPhone em phone d) \<union>
     set (primaryContactsFromDb (primaryIdSet (findContactsByEmailOrPhone em phone d)) d)"
proof -
  let ?ex = "findContactsByEmailOrPhone em phone d"
  let ?fdb = "primaryContactsFromDb (primaryIdSet ?ex) d"
  have "set ?ex \<union> set ?fdb \<subseteq> set (contact d)"
    using findContacts_sound primaryContactsFromDb_sound by blast
  then have "inj_on id_c (set ?ex \<union> set ?fdb)"
    using unique_ids_inj [OF assms] by (rule inj_on_subset [rotated])
  then show ?thesis by (simp add: allContacts_def Let_def allContactsOf_new_Set)
qed

lemma set_foldl_primaryIdSet:
  "set (foldl (\<lambda>s c. if linkprecedence c = Primary then set_add s (id_c c)
                      else if truthy_num (linkedid c) then set_add s (the (linkedid c))
                      else s) acc seed) =
     set acc \<union> {id_c c |c. c \<in> set seed \<and> linkprecedence c = Primary} \<union>
       {the (linkedid c) |c. c \<in> set seed \<and> linkprecedence c = Secondary \<and> truthy_num (linkedid c)}"
proof (induction seed arbitrary: acc)
  case Nil
  show ?case by simp
next
  case (Cons c seed)
  show ?case
    by (cases "linkprecedence c") (auto simp: Cons.IH set_add_def)
qed

lemma set_primaryIdSet:
  "set (primaryIdSet seed) =
     {id_c c |c. c \<in> set seed \<and> linkprecedence c = Primary} \<union>
     {the (linkedid c) |c. c \<in> set seed \<and> linkprecedence c = Secondary \<and> truthy_num (linkedid c)}"
  by (simp add: primaryIdSet_def set_foldl_primaryIdSet)

lemma set_spec_clusters:
  "set (spec_clusters seed) =
     {id_c c |c. c \<in> set seed \<and> linkprecedence c = Primary} \<union>
     {p. \<exists>c \<in> set seed. linkprecedence c = Secondary \<and> linkedid c = Some p}"
  by (auto simp: spec_clusters_def split: linkprecedence_t.splits option.splits)

lemma secondaries_linkedD:
  "secondaries_linked d \<Longrightarrow> c \<in> set (contact d) \<Longrightarrow> linkprecedence c = Secondary \<Longrightarrow>
     truthy_num (linkedid c)"
  by (auto simp: secondaries_linked_def list_all_iff)

lemma clusters_agree:
  assumes "secondaries_linked d"
  shows "set (primaryIdSet (findContactsByEmailOrPhone em phone d)) =
         set (spec_clusters (findContactsByEmailOrPhone em phone d))"
proof -
  let ?seed = "findContactsByEmailOrPhone em phone d"
  have "truthy_num (linkedid c)" if "c \<in> set ?seed" "linkprecedence c = Secondary" for c
    using secondaries_linkedD [OF assms] findContacts_sound that by blast
  then have "{the (linkedid c) |c. c \<in> set ?seed \<and> linkprecedence c = Secondary \<and> truthy_num (linkedid c)}
      = {p. \<exists>c \<in> set ?seed. linkprecedence c = Secondary \<and> linkedid c = Some p}"
    by (force simp: truthy_num_def split: option.splits)
  then show ?thesis by (simp add: set_primaryIdSet set_spec_clusters)
qed

lemma set_values:
  "set (new_Set (map the (filter (\<lambda>v. v \<noteq> None) (map g cs)))) = {v. \<exists>c \<in> set cs. g c = Some v}"
  by force

lemma set_getAllEmails: "set (getAllEmails cs) = {v. \<exists>c \<in> set cs. email c = Some v}"
  unfolding getAllEmails_def by (rule set_values)

lemma set_getAllPhones: "set (getAllPhones cs) = {v. \<exists>c \<in> set cs. phonenumber c = Some v}"
  unfolding getAllPhones_def by (rule set_values)

lemma allContacts_in_membership:
  assumes "secondaries_linked d" and c: "c \<in> set (allContacts em phone d)"
  shows "c \<in> set (spec_membership em phone d)"
proof -
  let ?seed = "findContactsByEmailOrPhone em phone d"
  have live: "c \<in> set (contact d)" "deletedat c = None"
    using allContacts_sound [OF c] by simp_all
  have "c \<in> set ?seed \<or> c \<in> set (primaryContactsFromDb (primaryIdSet ?seed) d)"
    using c allContactsOf_subset unfolding allContacts_def Let_def by blast
  then have "id_c c \<in> set (spec_clusters ?seed) \<or>
      (\<exists>p. linkedid c = Some p \<and> p \<in> set (spec_clusters ?seed))"
  proof
    assume s: "c \<in> set ?seed"
    show ?thesis
    proof (cases "linkprecedence c")
      case Primary
      then show ?thesis using s by (auto simp: set_spec_clusters)
    next
      case Secondary
      then have "truthy_num (linkedid c)" using secondaries_linkedD [OF assms(1) live(1)] by simp
      then obtain p where "linkedid c = Some p" by (auto simp: truthy_num_def split: option.splits)
      then show ?thesis using s Secondary by (auto simp: set_spec_clusters)
    qed
  next
    assume "c \<in> set (primaryContactsFromDb (primaryIdSet ?seed) d)"
    then have "id_c c \<in> set (primaryIdSet ?seed)"
      by (auto simp: primaryContactsFromDb_def split: if_splits)
    then show ?thesis using clusters_agree [OF assms(1)] by simp
  qed
  then show ?thesis using live by (auto simp: spec_membership_def Let_def)
qed

lemma membership_matching_in_allContacts:
  assumes "unique_ids d" and m: "m \<in> set (spec_membership em phone d)"
    and hit: "(truthy_str em \<and> email m = em) \<or> (truthy_str phone \<and> phonenumber m = phone)"
  shows "m \<in> set (allContacts em phone d)"
proof -
  have "m \<in> set (contact d)" "deletedat m = None"
    using m by (simp_all add: spec_membership_def Let_def)
  moreover have "sql_eq (email m) em \<or> sql_eq (phonenumber m) phone"
    using hit by (auto simp: sql_eq_def truthy_str_def split: option.splits)
  ultimately have "m \<in> set (findContactsByEmailOrPhone em phone d)"
    using hit by (auto simp: findContactsByEmailOrPhone_def)
  then show ?thesis by (simp add: set_allContacts [OF assms(1)])
qed

lemma isNewEmail_spec:
  assumes "unique_ids d" and "secondaries_linked d"
  shows "isNewEmail em phone d = spec_isNewEmail em phone d"
proof (cases "truthy_str em")
  case False
  then show ?thesis
    by (simp add: isNewEmail_def spec_isNewEmail_def truthy_str_def split: option.splits)
next
  case True
  then obtain e where e: "em = Some e" "e \<noteq> []"
    by (auto simp: truthy_str_def split: option.splits)
  have "(\<exists>c \<in> set (allContacts em phone d). email c = Some e) \<longleftrightarrow>
        (\<exists>c \<in> set (spec_membership em phone d). email c = Some e)"
    using allContacts_in_membership [OF assms(2)]
      membership_matching_in_allContacts [OF assms(1)] True e by blast
  then show ?thesis using e True
    by (simp add: isNewEmail_def spec_isNewEmail_def set_getAllEmails list_ex_iff)
qed

lemma isNewPhone_spec:
  assumes "unique_ids d" and "secondaries_linked d"
  shows "isNewPhone em phone d = spec_isNewPhone em phone d"
proof (cases "truthy_str phone")
  case False
  then show ?thesis
    by (simp add: isNewPhone_def spec_isNewPhone_def truthy_str_def split: option.splits)
next
  case True
  then obtain p where p: "phone = Some p" "p \<noteq> []"
    by (auto simp: truthy_str_def split: option.splits)
  have "(\<exists>c \<in> set (allContacts em phone d). phonenumber c = Some p) \<longleftrightarrow>
        (\<exists>c \<in> set (spec_membership em phone d). phonenumber c = Some p)"
    using allContacts_in_membership [OF assms(2)]
      membership_matching_in_allContacts [OF assms(1)] True p by blast
  then show ?thesis using p True
    by (simp add: isNewPhone_def spec_isNewPhone_def set_getAllPhones list_ex_iff)
qed


lemma identify_matched_fits:
  assumes prims: "allPrimaryContacts em phone d = u # rest"
    and fits: "fits 255 em" "fits 15 phone"
  shows "contact (snd (identify now em phone d)) =
     contact (demote now (id_c u) rest d) @
       (if isNewEmail em phone d \<or> isNewPhone em phone d
        then [\<lparr>id_c = contact_id_seq d + 1,
               phonenumber = (if isNewPhone em phone d then phone else None),
               email = (if isNewEmail em phone d then em else None),
               linkedid = Some (id_c u), linkprecedence = Secondary,
               createdat = now, updateat = now, deletedat = None\<rparr>]
        else [])"
proof -
  note ne = found_if_primaries [OF prims]
  have f: "fits 255 (if isNewEmail em phone d then em else None)"
    "fits 15 (if isNewPhone em phone d then phone else None)"
    using fits by (simp_all add: fits_def)
  show ?thesis
    using prims ne
    by (simp add: identify_def identify_body_def Let_def createContact_fits [OF f]
        split: sum.splits)
qed

lemma singleton_list: "distinct xs \<Longrightarrow> set xs = {a} \<Longrightarrow> xs = [a]"
  by (cases xs) (auto simp: subset_singleton_iff)

lemma primary_seed_in_ids:
  "q \<in> set seed \<Longrightarrow> linkprecedence q = Primary \<Longrightarrow> id_c q \<in> set (primaryIdSet seed)"
  unfolding set_primaryIdSet by blast

lemma fromDb_in_ids: "q \<in> set (primaryContactsFromDb ids d) \<Longrightarrow> id_c q \<in> set ids"
  by (cases "ids = []") (simp_all add: primaryContactsFromDb_def)

lemma one_cluster_one_primary:
  assumes uniq: "unique_ids d" and sl: "secondaries_linked d"
    and one: "remdups (spec_clusters (findContactsByEmailOrPhone em phone d)) = [p]"
    and P: "P \<in> set (contact d)" "id_c P = p" "linkprecedence P = Primary" "deletedat P = None"
  shows "allPrimaryContacts em phone d = [P]"
proof -
  let ?seed = "findContactsByEmailOrPhone em phone d"
  let ?ids = "primaryIdSet ?seed"
  have "set (spec_clusters ?seed) = {p}"
    using arg_cong [OF one, of set] by simp
  then have ids: "set ?ids = {p}" using clusters_agree [OF sl] by simp
  then have "?ids \<noteq> []" by auto
  then have "P \<in> set (primaryContactsFromDb ?ids d)"
    using P ids by (simp add: primaryContactsFromDb_def)
  then have P_in: "P \<in> set (allPrimaryContacts em phone d)"
    using P(3) by (simp add: set_allPrimaryContacts set_allContacts [OF uniq])
  have "q = P" if q: "q \<in> set (allPrimaryContacts em phone d)" for q
  proof -
    have q0: "q \<in> set (contact d)" "linkprecedence q = Primary"
      using allPrimaryContacts_sound [OF q] by simp_all
    have "q \<in> set ?seed \<or> q \<in> set (primaryContactsFromDb ?ids d)"
      using q by (simp add: set_allPrimaryContacts set_allContacts [OF uniq])
    then have "id_c q \<in> set ?ids"
      using q0(2) primary_seed_in_ids fromDb_in_ids by blast
    then show ?thesis using unique_idsD [OF uniq q0(1) P(1)] ids P(2) by simp
  qed
  then have "set (allPrimaryContacts em phone d) = {P}" using P_in by blast
  moreover have "distinct (allPrimaryContacts em phone d)"
    using allPrimaryContacts_distinct_ids [of em phone d] by (simp add: distinct_map)
  ultimately show ?thesis by (rule singleton_list [rotated])
qed

lemma identify_noop:
  assumes prims: "allPrimaryContacts em phone d = [u]"
    and old: "\<not> isNewEmail em phone d" "\<not> isNewPhone em phone d"
  shows "\<exists>r. buildResponse (getAllContactsLinkedToPrimary (id_c u) d) = Inr r \<and>
              identify now em phone d = (Json r, d)"
proof -
  obtain r where r: "buildResponse (getAllContactsLinkedToPrimary (id_c u) d) = Inr r"
    using final_has_primary [OF prims, of d 0 "[]"] by auto
  then have "identify now em phone d = (Json r, d)"
    using prims old found_if_primaries [OF prims]
    by (simp add: identify_def identify_body_def Let_def)
  then show ?thesis using r by blast
qed

subsection \<open>A fully matched request writes nothing\<close>

text \<open>
  When the matched contacts resolve to one cluster whose primary is a live row and whose
  membership already holds the submitted email and phone, the request writes nothing (no
  row, no demotion, no link update, the store is unchanged), it answers with success, and
  submitting the same pair again from that store, at any time, gives the same answer.
\<close>

lemma noop_when_fully_matched:
  assumes "unique_ids d" and "secondaries_linked d"
    and "fully_matches_one_cluster em phone d"
  shows "snd (identify now em phone d) = d \<and>
         (\<exists>r. fst (identify now em phone d) = Json r) \<and>
         identify now' em phone (snd (identify now em phone d)) = identify now em phone d"
proof -
  let ?seed = "findContactsByEmailOrPhone em phone d"
  obtain p where one: "remdups (spec_clusters ?seed) = [p]"
    and ex: "list_ex (\<lambda>c. id_c c = p \<and> linkprecedence c = Primary \<and> deletedat c = None) (contact d)"
    and old: "\<not> spec_isNewEmail em phone d" "\<not> spec_isNewPhone em phone d"
    using assms(3) by (auto simp: fully_matches_one_cluster_def split: list.splits)
  obtain P where P: "P \<in> set (contact d)" "id_c P = p" "linkprecedence P = Primary"
      "deletedat P = None"
    using ex by (auto simp: list_ex_iff)
  have prims: "allPrimaryContacts em phone d = [P]"
    by (rule one_cluster_one_primary [OF assms(1,2) one P])
  have old': "\<not> isNewEmail em phone d" "\<not> isNewPhone em phone d"
    using old isNewEmail_spec [OF assms(1,2)] isNewPhone_spec [OF assms(1,2)] by simp_all
  obtain r where "identify now em phone d = (Json r, d)"
    using identify_noop [OF prims old', of now] by blast
  moreover obtain r' where "identify now' em phone d = (Json r', d)"
    "buildResponse (getAllContactsLinkedToPrimary (id_c P) d) = Inr r'"
    using identify_noop [OF prims old', of now'] by blast
  moreover have "buildResponse (getAllContactsLinkedToPrimary (id_c P) d) = Inr r"
    using identify_noop [OF prims old', of now] calculation(1) by auto
  ultimately show ?thesis by simp
qed

lemma noop_when_fully_matched_example:
  "unique_ids ex_db \<and> secondaries_linked ex_db \<and>
   fully_matches_one_cluster (Some ''b@x.com'') (Some ''333'') ex_db \<and>
   identify 100 (Some ''b@x.com'') (Some ''333'') ex_db =
     (Json \<lparr>primaryContactId = 2, emails = [''b@x.com''], phoneNumbers = [''222'', ''333''],
            secondaryContactIds = [3]\<rparr>, ex_db) \<and>
   identify 200 (Some ''b@x.com'') (Some ''333'')
       (snd (identify 100 (Some ''b@x.com'') (Some ''333'') ex_db)) =
     identify 100 (Some ''b@x.com'') (Some ''333'') ex_db"
proof -
  have h: "unique_ids ex_db" "secondaries_linked ex_db"
    by (simp_all add: unique_ids_def secondaries_linked_def truthy_num_def ex_defs)
  have m: "fully_matches_one_cluster (Some ''b@x.com'') (Some ''333'') ex_db"
    by (simp add: fully_matches_one_cluster_def spec_isNewEmail_def spec_isNewPhone_def
        spec_membership_def spec_clusters_def findContactsByEmailOrPhone_def sql_eq_def
        truthy_str_def ex_defs)
  have v: "identify 100 (Some ''b@x.com'') (Some ''333'') ex_db =
     (Json \<lparr>primaryContactId = 2, emails = [''b@x.com''], phoneNumbers = [''222'', ''333''],
            secondaryContactIds = [3]\<rparr>, ex_db)"
    by (simp add: model_defs ex_defs Let_def)
  show ?thesis
    using noop_when_fully_matched [OF h m, of 100 200] h m v by simp
qed

subsection \<open>What the corrected parentheses change\<close>

lemma rev0_query_agrees_on_live_primary:
  "\<forall>c \<in> set (contact d). id_c c = primaryId \<longrightarrow> deletedat c = None \<Longrightarrow>
     getAllContactsLinkedToPrimary_rev0 primaryId d = getAllContactsLinkedToPrimary primaryId d"
  unfolding getAllContactsLinkedToPrimary_rev0_def getAllContactsLinkedToPrimary_def
  by (rule filter_cong) auto

lemma rev0_query_returns_deleted_primary:
  "getAllContactsLinkedToPrimary_rev0 1 \<lparr>contact = [ex_D, ex_S], contact_id_seq = 2\<rparr> = [ex_D, ex_S] \<and>
   getAllContactsLinkedToPrimary 1 \<lparr>contact = [ex_D, ex_S], contact_id_seq = 2\<rparr> = [ex_S]"
  by (simp add: getAllContactsLinkedToPrimary_rev0_def getAllContactsLinkedToPrimary_def
      sql_eq_def ex_defs)

lemma rev0_membership_reads_deleted_secondary:
  "getAllLinkedContacts_rev0 [ex_A]
      \<lparr>contact = [ex_A, ex_C\<lparr>linkedid := Some 1, deletedat := Some 50\<rparr>], contact_id_seq = 3\<rparr> =
     [ex_A, ex_C\<lparr>linkedid := Some 1, deletedat := Some 50\<rparr>]"
  by (simp add: getAllLinkedContacts_rev0_def ex_defs)

text \<open>The primaries a request involves, read off the store: the live primary rows that
  match, and those a matched secondary is linked to.\<close>

lemma involved_primaries:
  assumes "unique_ids d"
  shows "set (allPrimaryContacts em phone d) =
     {c \<in> set (contact d). deletedat c = None \<and> linkprecedence c = Primary \<and>
        (c \<in> set (findContactsByEmailOrPhone em phone d) \<or>
         (\<exists>s \<in> set (findContactsByEmailOrPhone em phone d).
            linkprecedence s = Secondary \<and> truthy_num (linkedid s) \<and>
            linkedid s = Some (id_c c)))}"
    (is "?L = ?R")
proof (intro set_eqI iffI)
  let ?seed = "findContactsByEmailOrPhone em phone d"
  let ?ids = "primaryIdSet ?seed"
  fix c assume c: "c \<in> ?L"
  have c0: "c \<in> set (contact d)" "deletedat c = None" "linkprecedence c = Primary"
    using allPrimaryContacts_sound [OF c] by simp_all
  have "c \<in> set ?seed \<or> c \<in> set (primaryContactsFromDb ?ids d)"
    using c by (simp add: set_allPrimaryContacts set_allContacts [OF assms])
  then have "c \<in> set ?seed \<or> id_c c \<in> set ?ids" using fromDb_in_ids by blast
  then have "c \<in> set ?seed \<or>
      (\<exists>s \<in> set ?seed. linkprecedence s = Secondary \<and> truthy_num (linkedid s) \<and>
         linkedid s = Some (id_c c))"
  proof
    assume "c \<in> set ?seed" then show ?thesis by simp
  next
    assume "id_c c \<in> set ?ids"
    then consider
      (prim) c' where "c' \<in> set ?seed" "linkprecedence c' = Primary" "id_c c = id_c c'"
    | (sec) s where "s \<in> set ?seed" "linkprecedence s = Secondary" "truthy_num (linkedid s)"
        "id_c c = the (linkedid s)"
      unfolding set_primaryIdSet by blast
    then show ?thesis
    proof cases
      case prim
      then have "c = c'" using unique_idsD [OF assms c0(1)] findContacts_sound by blast
      then show ?thesis using prim by simp
    next
      case sec
      then have "linkedid s = Some (id_c c)"
        by (cases "linkedid s") (simp_all add: truthy_num_def)
      then show ?thesis using sec by blast
    qed
  qed
  then show "c \<in> ?R" using c0 by simp
next
  let ?seed = "findContactsByEmailOrPhone em phone d"
  let ?ids = "primaryIdSet ?seed"
  fix c assume c: "c \<in> ?R"
  then have c0: "c \<in> set (contact d)" "deletedat c = None" "linkprecedence c = Primary" by simp_all
  have "c \<in> set ?seed \<or> c \<in> set (primaryContactsFromDb ?ids d)"
  proof (cases "c \<in> set ?seed")
    case True then show ?thesis by simp
  next
    case False
    then obtain s where "s \<in> set ?seed" "linkprecedence s = Secondary" "truthy_num (linkedid s)"
        "linkedid s = Some (id_c c)" using c by blast
    then have "id_c c \<in> set ?ids" unfolding set_primaryIdSet by force
    then have "c \<in> set (primaryContactsFromDb ?ids d)"
      using c0 by (auto simp: primaryContactsFromDb_def)
    then show ?thesis by simp
  qed
  then show "c \<in> ?L"
    using c0(3) by (simp add: set_allPrimaryContacts set_allContacts [OF assms])
qed

subsection \<open>Submitting the same pair twice\<close>

lemma no_row_at_next_id:
  assumes "ids_issued d" and "links_resolve d" and c: "c \<in> set (contact d)"
  shows "id_c c \<noteq> contact_id_seq d + 1 \<and> linkedid c \<noteq> Some (contact_id_seq d + 1)"
proof -
  have "id_c c \<noteq> contact_id_seq d + 1" using ids_issuedD [OF assms(1) c] by simp
  moreover have "linkedid c \<noteq> Some (contact_id_seq d + 1)"
  proof
    assume "linkedid c = Some (contact_id_seq d + 1)"
    then obtain t where "t \<in> set (contact d)" "id_c t = contact_id_seq d + 1"
      using links_resolveD [OF assms(2) c] by blast
    then show False using ids_issuedD [OF assms(1)] by fastforce
  qed
  ultimately show ?thesis by simp
qed

lemma filter_none: "(\<And>x. x \<in> set xs \<Longrightarrow> \<not> P x) \<Longrightarrow> filter P xs = []"
  by (induction xs) auto

lemma created_then_resubmitted:
  assumes issued: "ids_issued d" and res: "links_resolve d"
    and nomatch: "findContactsByEmailOrPhone em phone d = []"
    and some: "truthy_str em \<or> truthy_str phone"
    and nonempty: "em \<noteq> Some []" "phone \<noteq> Some []"
    and fits: "fits 255 em" "fits 15 phone"
  shows "identify now' em phone (snd (identify now em phone d)) = identify now em phone d"
proof -
  let ?n = "contact_id_seq d + 1"
  let ?N = "\<lparr>id_c = ?n, phonenumber = phone, email = em, linkedid = None,
             linkprecedence = Primary, createdat = now, updateat = now, deletedat = None\<rparr>"
  let ?d1 = "d\<lparr>contact := contact d @ [?N], contact_id_seq := ?n\<rparr>"
  let ?r = "\<lparr>primaryContactId = ?n, emails = map the (filter truthy_str [em]),
             phoneNumbers = map the (filter truthy_str [phone]), secondaryContactIds = []\<rparr>"
  have first: "identify now em phone d = (Json ?r, ?d1)"
    using nomatch by (simp add: identify_def identify_body_def createContact_fits [OF fits])
  have old: "filter (\<lambda>c. (sql_eq (email c) em \<or> sql_eq (phonenumber c) phone) \<and> deletedat c = None)
      (contact d) = []"
    using nomatch some by (simp add: findContactsByEmailOrPhone_def split: if_splits)
  have hit: "sql_eq em em \<or> sql_eq phone phone"
    using some by (auto simp: sql_eq_def truthy_str_def split: option.splits)
  have seed: "findContactsByEmailOrPhone em phone ?d1 = [?N]"
    using some old hit by (simp add: findContactsByEmailOrPhone_def)
  have fresh: "filter (\<lambda>c. c \<in> {x. id_c x = ?n} \<and> deletedat c = None) (contact d) = []"
    using no_row_at_next_id [OF issued res] by (intro filter_none) simp
  have prims: "allPrimaryContacts em phone ?d1 = [?N]"
    using fresh
    by (simp add: allPrimaryContacts_def allContacts_def seed primaryIdSet_def set_add_def
        primaryContactsFromDb_def allContactsOf_def allPrimaryContactsOf_def)
  have all: "allContacts em phone ?d1 = [?N]"
    using fresh
    by (simp add: allContacts_def seed primaryIdSet_def set_add_def
        primaryContactsFromDb_def allContactsOf_def)
  have notnew: "\<not> isNewEmail em phone ?d1" "\<not> isNewPhone em phone ?d1"
    by (auto simp: isNewEmail_def isNewPhone_def all set_getAllEmails set_getAllPhones
        truthy_str_def split: option.splits)
  have "filter (\<lambda>c. (id_c c = ?n \<or> sql_eq (linkedid c) (Some ?n)) \<and> deletedat c = None)
      (contact d) = []"
    using no_row_at_next_id [OF issued res]
    by (intro filter_none) (auto simp: sql_eq_def split: option.splits)
  then have final: "getAllContactsLinkedToPrimary ?n ?d1 = [?N]"
    by (simp add: getAllContactsLinkedToPrimary_def)
  have built: "buildResponse [?N] = Inr ?r"
    using nonempty
    by (cases em; cases phone)
      (simp_all add: buildResponse_def getAllEmails_def getAllPhones_def new_Set_def
        set_add_def truthy_str_def)
  obtain r' where "buildResponse (getAllContactsLinkedToPrimary (id_c ?N) ?d1) = Inr r'"
    "identify now' em phone ?d1 = (Json r', ?d1)"
    using identify_noop [OF prims notnew, of now'] by blast
  then have "identify now' em phone ?d1 = (Json ?r, ?d1)"
    using final built by simp
  then show ?thesis using first by simp
qed

lemma demote_row_secondary:
  "linkprecedence c = Secondary \<Longrightarrow> linkprecedence (demote_row now u ids c) = Secondary"
  by (simp add: demote_row_def)

lemma demote_row_link_kept:
  "linkedid c = Some u \<Longrightarrow> u \<notin> set ids \<Longrightarrow> linkedid (demote_row now u ids c) = Some u"
  by (simp add: demote_row_def)

lemma set_findContacts_after:
  assumes "contact d1 = map (demote_row now u ids) (contact d) @ extra"
  shows "set (findContactsByEmailOrPhone em phone d1) =
     demote_row now u ids ` set (findContactsByEmailOrPhone em phone d) \<union>
     set (findContactsByEmailOrPhone em phone (d\<lparr>contact := extra\<rparr>))"
  by (auto simp: findContactsByEmailOrPhone_def assms)

lemma unique_ids_after:
  assumes "unique_ids d" and "ids_issued d"
    and "contact d1 = map (demote_row now u ids) (contact d) @ extra"
    and "extra = [] \<or> (\<exists>row. extra = [row] \<and> id_c row = contact_id_seq d + 1)"
  shows "unique_ids d1"
proof -
  have "map id_c (contact d1) = map id_c (contact d) @ map id_c extra"
    using assms(3) by simp
  moreover have "contact_id_seq d + 1 \<notin> set (map id_c (contact d))"
    using ids_issuedD [OF assms(2)] by fastforce
  ultimately show ?thesis using assms(1,4) by (force simp: unique_ids_def)
qed

lemma merged_then_resubmitted:
  assumes uniq: "unique_ids d" and issued: "ids_issued d"
    and prims: "allPrimaryContacts em phone d = u # rest"
    and fits: "fits 255 em" "fits 15 phone"
  shows "identify now' em phone (snd (identify now em phone d)) = identify now em phone d"
proof -
  let ?ids = "map id_c rest"
  let ?f = "demote_row now (id_c u) ?ids"
  let ?d1 = "snd (identify now em phone d)"
  let ?seed = "findContactsByEmailOrPhone em phone d"
  let ?seed1 = "findContactsByEmailOrPhone em phone ?d1"
  let ?row = "\<lparr>id_c = contact_id_seq d + 1,
               phonenumber = (if isNewPhone em phone d then phone else None),
               email = (if isNewEmail em phone d then em else None),
               linkedid = Some (id_c u), linkprecedence = Secondary,
               createdat = now, updateat = now, deletedat = None\<rparr>"
  let ?extra = "if isNewEmail em phone d \<or> isNewPhone em phone d then [?row] else []"
  have rows: "contact ?d1 = map ?f (contact d) @ ?extra"
    using identify_matched_fits [OF prims fits, of now] contact_demote_candidates [OF prims, of now]
    by simp
  have uniq1: "unique_ids ?d1"
    by (rule unique_ids_after [OF uniq issued rows]) simp
  have u0: "u \<in> set (contact d)" "deletedat u = None" "linkprecedence u = Primary"
    using allPrimaryContacts_sound [of u em phone d] prims by simp_all
  have u_out: "id_c u \<notin> set ?ids" by (rule head_not_demoted [OF prims])
  have fu: "?f u \<in> set (contact ?d1)" "linkprecedence (?f u) = Primary" "deletedat (?f u) = None"
    using u0 rows demote_row_precedence [OF u_out, of now "id_c u"] by simp_all
  have seed1: "set ?seed1 = ?f ` set ?seed \<union>
      set (findContactsByEmailOrPhone em phone (d\<lparr>contact := ?extra\<rparr>))"
    by (rule set_findContacts_after [OF rows])
  have extra_row: "\<forall>s \<in> set (findContactsByEmailOrPhone em phone (d\<lparr>contact := ?extra\<rparr>)).
      linkprecedence s = Secondary \<and> linkedid s = Some (id_c u)"
  proof
    fix s assume "s \<in> set (findContactsByEmailOrPhone em phone (d\<lparr>contact := ?extra\<rparr>))"
    then have "s \<in> set ?extra"
      using findContacts_sound [of s em phone "d\<lparr>contact := ?extra\<rparr>"] by simp
    then show "linkprecedence s = Secondary \<and> linkedid s = Some (id_c u)"
      by (cases "isNewEmail em phone d \<or> isNewPhone em phone d") auto
  qed
  have in_prims: "q = u" if "q \<in> set (allPrimaryContacts em phone d)" "id_c q \<notin> set ?ids" for q
    using that prims by auto
  \<comment> \<open>every primary the second request involves is the ultimate primary of the first\<close>
  have only: "q' = ?f u" if q': "q' \<in> set (allPrimaryContacts em phone ?d1)" for q'
  proof -
    have q1: "q' \<in> set (contact ?d1)" "deletedat q' = None" "linkprecedence q' = Primary"
      and how: "q' \<in> set ?seed1 \<or>
        (\<exists>s \<in> set ?seed1. linkprecedence s = Secondary \<and> truthy_num (linkedid s) \<and>
           linkedid s = Some (id_c q'))"
      using q' unfolding involved_primaries [OF uniq1] by simp_all
    obtain q where q: "q \<in> set (contact d)" "q' = ?f q"
      using q1(1,3) rows by (auto split: if_splits)
    have q_out: "id_c q \<notin> set ?ids"
      using demote_row_demoted [of q ?ids now "id_c u"] q1(3) q(2) by auto
    then have q_prim: "linkprecedence q = Primary" "deletedat q = None"
      using demote_row_precedence [of q ?ids now "id_c u"] q1 q(2) by simp_all
    have "q \<in> set (allPrimaryContacts em phone d) \<or> id_c q = id_c u"
      using how
    proof
      assume "q' \<in> set ?seed1"
      then have "q' \<in> ?f ` set ?seed" using seed1 extra_row q1(3) by force
      then obtain c where c: "c \<in> set ?seed" "?f c = ?f q" using q(2) by auto
      then have "id_c c = id_c q" by (metis demote_row_keeps(1))
      then have "c = q" using unique_idsD [OF uniq _ q(1)] findContacts_sound c(1) by blast
      then show ?thesis
        using c(1) q(1) q_prim unfolding involved_primaries [OF uniq] by simp
    next
      assume "\<exists>s \<in> set ?seed1. linkprecedence s = Secondary \<and> truthy_num (linkedid s) \<and>
           linkedid s = Some (id_c q')"
      then obtain s' where s': "s' \<in> set ?seed1" "linkprecedence s' = Secondary"
          "truthy_num (linkedid s')" "linkedid s' = Some (id_c q)"
        using q(2) by auto
      show ?thesis
      proof (cases "linkedid s' = Some (id_c u)")
        case True
        then show ?thesis using s'(4) by simp
      next
        case False
        then have "s' \<in> ?f ` set ?seed" using s'(1) seed1 extra_row by force
        then obtain s where s: "s \<in> set ?seed" "s' = ?f s" by auto
        then have same: "?f s = s" using demote_row_link [of now "id_c u" ?ids s] False by auto
        then have "s \<in> set ?seed \<and> linkprecedence s = Secondary \<and> truthy_num (linkedid s) \<and>
            linkedid s = Some (id_c q)" using s s' by simp
        then show ?thesis
          using q(1) q_prim unfolding involved_primaries [OF uniq] by blast
      qed
    qed
    then have "id_c q = id_c u" using in_prims [OF _ q_out] by auto
    then have "q = u" by (rule unique_idsD [OF uniq q(1) u0(1)])
    then show ?thesis using q(2) by simp
  qed
  \<comment> \<open>and the second request involves it\<close>
  have "u \<in> set (allPrimaryContacts em phone d)" using prims by simp
  then have "u \<in> set ?seed \<or>
      (\<exists>s \<in> set ?seed. linkprecedence s = Secondary \<and> truthy_num (linkedid s) \<and>
         linkedid s = Some (id_c u))"
    unfolding involved_primaries [OF uniq] by simp
  then have "?f u \<in> set ?seed1 \<or>
      (\<exists>s \<in> set ?seed1. linkprecedence s = Secondary \<and> truthy_num (linkedid s) \<and>
         linkedid s = Some (id_c (?f u)))"
  proof
    assume "u \<in> set ?seed"
    then show ?thesis using seed1 by simp
  next
    assume "\<exists>s \<in> set ?seed. linkprecedence s = Secondary \<and> truthy_num (linkedid s) \<and>
         linkedid s = Some (id_c u)"
    then obtain s where s: "s \<in> set ?seed" "linkprecedence s = Secondary"
        "truthy_num (linkedid s)" "linkedid s = Some (id_c u)" by blast
    have "?f s \<in> set ?seed1" using s(1) seed1 by simp
    moreover have "linkedid (?f s) = Some (id_c u)"
      by (rule demote_row_link_kept [OF s(4) u_out])
    moreover have "truthy_num (linkedid (?f s))" using calculation(2) s(3,4) by simp
    ultimately show ?thesis using demote_row_secondary [OF s(2), of now "id_c u" ?ids] by auto
  qed
  then have "?f u \<in> set (allPrimaryContacts em phone ?d1)"
    using fu unfolding involved_primaries [OF uniq1] by simp
  then have "set (allPrimaryContacts em phone ?d1) = {?f u}" using only by blast
  moreover have "distinct (allPrimaryContacts em phone ?d1)"
    using allPrimaryContacts_distinct_ids [of em phone ?d1] by (simp add: distinct_map)
  ultimately have prims1: "allPrimaryContacts em phone ?d1 = [?f u]"
    by (rule singleton_list [rotated])
  \<comment> \<open>nothing is new the second time\<close>
  have seed_all1: "set ?seed1 \<subseteq> set (allContacts em phone ?d1)"
    by (simp add: set_allContacts [OF uniq1])
  have known_e: "\<exists>c \<in> set ?seed1. email c = Some e" if e: "em = Some e" "e \<noteq> []" for e
  proof (cases "isNewEmail em phone d")
    case True
    then have "?row \<in> set (findContactsByEmailOrPhone em phone (d\<lparr>contact := ?extra\<rparr>))"
      using e by (simp add: findContactsByEmailOrPhone_def truthy_str_def sql_eq_def)
    then show ?thesis using seed1 True e by (intro bexI [of _ ?row]) simp_all
  next
    case False
    then obtain c where c: "c \<in> set (allContacts em phone d)" "email c = Some e"
      using e by (auto simp: isNewEmail_def truthy_str_def set_getAllEmails)
    then have "c \<in> set ?seed"
      using allContacts_sound [OF c(1)] e
      by (simp add: findContactsByEmailOrPhone_def truthy_str_def sql_eq_def)
    then show ?thesis using seed1 c(2) by (intro bexI [of _ "?f c"]) simp_all
  qed
  have known_p: "\<exists>c \<in> set ?seed1. phonenumber c = Some p" if p: "phone = Some p" "p \<noteq> []" for p
  proof (cases "isNewPhone em phone d")
    case True
    then have "?row \<in> set (findContactsByEmailOrPhone em phone (d\<lparr>contact := ?extra\<rparr>))"
      using p by (simp add: findContactsByEmailOrPhone_def truthy_str_def sql_eq_def)
    then show ?thesis using seed1 True p by (intro bexI [of _ ?row]) simp_all
  next
    case False
    then obtain c where c: "c \<in> set (allContacts em phone d)" "phonenumber c = Some p"
      using p by (auto simp: isNewPhone_def truthy_str_def set_getAllPhones)
    then have "c \<in> set ?seed"
      using allContacts_sound [OF c(1)] p
      by (simp add: findContactsByEmailOrPhone_def truthy_str_def sql_eq_def)
    then show ?thesis using seed1 c(2) by (intro bexI [of _ "?f c"]) simp_all
  qed
  have notnew_e: "\<not> isNewEmail em phone ?d1"
  proof (cases "truthy_str em")
    case False
    then show ?thesis by (simp add: isNewEmail_def)
  next
    case True
    then obtain e where e: "em = Some e" "e \<noteq> []"
      by (auto simp: truthy_str_def split: option.splits)
    then obtain c where "c \<in> set (allContacts em phone ?d1)" "email c = Some e"
      using known_e seed_all1 by blast
    then have "e \<in> set (getAllEmails (allContacts em phone ?d1))"
      unfolding set_getAllEmails by blast
    then show ?thesis using e by (simp add: isNewEmail_def)
  qed
  have notnew_p: "\<not> isNewPhone em phone ?d1"
  proof (cases "truthy_str phone")
    case False
    then show ?thesis by (simp add: isNewPhone_def)
  next
    case True
    then obtain p where p: "phone = Some p" "p \<noteq> []"
      by (auto simp: truthy_str_def split: option.splits)
    then obtain c where "c \<in> set (allContacts em phone ?d1)" "phonenumber c = Some p"
      using known_p seed_all1 by blast
    then have "p \<in> set (getAllPhones (allContacts em phone ?d1))"
      unfolding set_getAllPhones by blast
    then show ?thesis using p by (simp add: isNewPhone_def)
  qed
  note notnew = notnew_e notnew_p
  obtain r' where r': "buildResponse (getAllContactsLinkedToPrimary (id_c (?f u)) ?d1) = Inr r'"
    "identify now' em phone ?d1 = (Json r', ?d1)"
    using identify_noop [OF prims1 notnew, of now'] by blast
  obtain extra r where "buildResponse (getAllContactsLinkedToPrimary (id_c u) ?d1) = Inr r"
    "fst (identify now em phone d) = Json r"
    using identify_matched [OF prims, of now] fits by blast
  then have "identify now em phone d = (Json r', ?d1)"
    using r'(1) by (simp add: prod_eq_iff)
  then show ?thesis using r'(2) by simp
qed

text \<open>Submitting a pair twice: on a store that satisfies its schema, for a pair with a
  value, no empty string and values that fit their columns, the second submission
  returns what the first returned and leaves the store as the first left it.\<close>

lemma resubmission_idempotent_without_empty_fields:
  assumes "unique_ids d" and "ids_issued d" and "links_resolve d"
    and "truthy_str em \<or> truthy_str phone" and "em \<noteq> Some []" and "phone \<noteq> Some []"
    and "fits 255 em" and "fits 15 phone"
  shows "identify now' em phone (snd (identify now em phone d)) = identify now em phone d"
proof (cases "allPrimaryContacts em phone d")
  case (Cons u rest)
  then show ?thesis by (rule merged_then_resubmitted [OF assms(1,2) _ assms(7,8)])
next
  case Nil
  show ?thesis
  proof (cases "findContactsByEmailOrPhone em phone d = []")
    case True
    then show ?thesis by (rule created_then_resubmitted [OF assms(2,3) _ assms(4-8)])
  next
    case False
    then have "identify t em phone d = (InternalServerError, d)" for t
      using Nil by (simp add: identify_def identify_body_def)
    then show ?thesis by simp
  qed
qed

lemma identify_matched_Json:
  assumes prims: "allPrimaryContacts em phone d = u # rest"
    and json: "fst (identify now em phone d) = Json r"
  shows "buildResponse (getAllContactsLinkedToPrimary (id_c u) (snd (identify now em phone d))) = Inr r"
proof -
  note ne = found_if_primaries [OF prims]
  let ?d1 = "demote now (id_c u) rest d"
  show ?thesis
  proof (cases "isNewEmail em phone d \<or> isNewPhone em phone d")
    case False
    then show ?thesis using json prims ne
      by (auto simp: identify_def identify_body_def Let_def split: sum.splits)
  next
    case True
    obtain res d2 where c: "createContact now (if isNewEmail em phone d then em else None)
        (if isNewPhone em phone d then phone else None) (Some (id_c u)) Secondary ?d1 = (res, d2)"
      by (cases "createContact now (if isNewEmail em phone d then em else None)
        (if isNewPhone em phone d then phone else None) (Some (id_c u)) Secondary ?d1")
    show ?thesis using json prims ne True c
      by (cases res) (auto simp: identify_def identify_body_def Let_def split: sum.splits)
  qed
qed



subsection \<open>The involved primaries, read off the store\<close>

text \<open>The list the handler sorts holds exactly the primaries the request involves.\<close>

lemma set_allPrimaryContacts_involved:
  assumes "unique_ids d" and "secondaries_linked d"
  shows "set (allPrimaryContacts em phone d) = {c \<in> set (contact d). involved em phone d c}"
proof -
  let ?seed = "findContactsByEmailOrPhone em phone d"
  have "truthy_num (linkedid s)" if "s \<in> set ?seed" "linkprecedence s = Secondary" for s
    using secondaries_linkedD [OF assms(2)] findContacts_sound that by blast
  then have "involved em phone d c \<longleftrightarrow>
      deletedat c = None \<and> linkprecedence c = Primary \<and>
        (c \<in> set ?seed \<or>
         (\<exists>s \<in> set ?seed. linkprecedence s = Secondary \<and> truthy_num (linkedid s) \<and>
            linkedid s = Some (id_c c)))" for c
    unfolding involved_def list_ex_iff by blast
  then show ?thesis unfolding involved_primaries [OF assms(1)] by simp
qed

lemma involved_gives_primaries:
  assumes "unique_ids d" and "secondaries_linked d"
    and "list_ex (involved em phone d) (contact d)"
  shows "\<exists>u rest. allPrimaryContacts em phone d = u # rest \<and> u \<notin> set rest \<and>
           set (u # rest) = {c \<in> set (contact d). involved em phone d c}"
proof -
  have "set (allPrimaryContacts em phone d) \<noteq> {}"
    using assms(3) unfolding set_allPrimaryContacts_involved [OF assms(1,2)] list_ex_iff by blast
  then obtain u rest where p: "allPrimaryContacts em phone d = u # rest"
    by (cases "allPrimaryContacts em phone d") auto
  have "u \<notin> set rest"
    using allPrimaryContacts_distinct_ids [of em phone d] unfolding p by auto
  then show ?thesis
    using p set_allPrimaryContacts_involved [OF assms(1,2), of em phone] by auto
qed

text \<open>
  Merge precedence as the code decides it. On a store with unique keys whose secondaries
  carry a link and whose primaries carry none, a request that involves at least one live
  primary is resolved as follows: the ultimate primary is an involved primary whose
  \<^verbatim>\<open>createdat\<close>, cut to milliseconds by \<^verbatim>\<open>getTime()\<close>, is not later than that of any
  other; every other involved primary ends as a secondary linked to it; every answer
  names it as \<^verbatim>\<open>primaryContactId\<close> and lists the demoted primaries among
  \<^verbatim>\<open>secondaryContactIds\<close>; and an answer is returned whenever the submitted values fit
  their columns. Among primaries created in the same millisecond the one the handler
  met first wins, whatever their microseconds.
\<close>

lemma earliest_millisecond_primary_wins:
  assumes "unique_ids d" and "secondaries_linked d" and "primaries_unlinked d"
    and "list_ex (involved em phone d) (contact d)"
  shows "\<exists>ultimatePrimary demoted.
           allPrimaryContacts em phone d = ultimatePrimary # demoted \<and>
           ultimatePrimary \<notin> set demoted \<and>
           set (ultimatePrimary # demoted) = {c \<in> set (contact d). involved em phone d c} \<and>
           (\<forall>p \<in> set demoted. getTime (createdat ultimatePrimary) \<le> getTime (createdat p)) \<and>
           (\<forall>c \<in> set (contact (snd (identify now em phone d))).
              id_c c \<in> id_c ` set demoted \<longrightarrow>
                linkprecedence c = Secondary \<and> linkedid c = Some (id_c ultimatePrimary)) \<and>
           (\<exists>c \<in> set (contact (snd (identify now em phone d))).
              id_c c = id_c ultimatePrimary \<and> linkprecedence c = Primary) \<and>
           (\<forall>r. fst (identify now em phone d) = Json r \<longrightarrow>
              primaryContactId r = id_c ultimatePrimary \<and>
              id_c ` set demoted \<subseteq> set (secondaryContactIds r)) \<and>
           (fits 255 em \<and> fits 15 phone \<longrightarrow> (\<exists>r. fst (identify now em phone d) = Json r))"
proof -
  obtain ultimatePrimary demoted
    where prims: "allPrimaryContacts em phone d = ultimatePrimary # demoted"
      and 0: "ultimatePrimary \<notin> set demoted"
      and 1: "set (ultimatePrimary # demoted) = {c \<in> set (contact d). involved em phone d c}"
    using involved_gives_primaries [OF assms(1,2,4)] by blast
  let ?u = "id_c ultimatePrimary"
  let ?ids = "map id_c demoted"
  let ?f = "demote_row now ?u ?ids"
  let ?d' = "snd (identify now em phone d)"
  obtain extra where rows: "contact ?d' = contact (demote now ?u demoted d) @ extra"
    and extra: "\<forall>row \<in> set extra. linkprecedence row = Secondary \<and> linkedid row = Some ?u \<and>
            id_c row = contact_id_seq d + 1 \<and> deletedat row = None"
    and ok: "fits 255 em \<and> fits 15 phone \<longrightarrow>
            length extra = (if isNewEmail em phone d \<or> isNewPhone em phone d then 1 else 0) \<and>
            (\<exists>r. buildResponse (getAllContactsLinkedToPrimary ?u ?d') = Inr r \<and>
                 fst (identify now em phone d) = Json r)"
    using identify_matched [OF prims, of now] by blast
  have rows': "contact ?d' = map ?f (contact d) @ extra"
    using rows contact_demote_candidates [OF prims] by simp
  have sound: "\<forall>p \<in> set (ultimatePrimary # demoted).
            p \<in> set (contact d) \<and> linkprecedence p = Primary \<and> deletedat p = None"
    using allPrimaryContacts_sound [of _ em phone d] prims by simp
  have 2: "\<forall>p \<in> set demoted. getTime (createdat ultimatePrimary) \<le> getTime (createdat p)"
    using allPrimaryContacts_head_oldest [OF prims] by blast
  have 3: "\<forall>c \<in> set (contact ?d'). id_c c \<in> id_c ` set demoted \<longrightarrow>
              linkprecedence c = Secondary \<and> linkedid c = Some ?u"
  proof (intro ballI impI)
    fix c assume c: "c \<in> set (contact ?d')" "id_c c \<in> id_c ` set demoted"
    show "linkprecedence c = Secondary \<and> linkedid c = Some ?u"
    proof (cases "c \<in> set extra")
      case True
      then show ?thesis using extra by simp
    next
      case False
      then obtain c0 where "c0 \<in> set (contact d)" "c = ?f c0" using c(1) rows' by auto
      then show ?thesis using demote_row_demoted [of c0 ?ids now ?u] c(2) by simp
    qed
  qed
  have 4: "\<exists>c \<in> set (contact ?d'). id_c c = ?u \<and> linkprecedence c = Primary"
  proof -
    have "?f ultimatePrimary \<in> set (contact ?d')" using sound rows' by simp
    moreover have "linkprecedence (?f ultimatePrimary) = Primary"
      using demote_row_precedence [OF head_not_demoted [OF prims]] sound by simp
    ultimately show ?thesis by (intro bexI [of _ "?f ultimatePrimary"]) simp_all
  qed
  have secondary: "\<forall>row \<in> set extra. linkprecedence row = Secondary" using extra by simp
  have 5: "\<forall>r. fst (identify now em phone d) = Json r \<longrightarrow>
            primaryContactId r = ?u \<and> id_c ` set demoted \<subseteq> set (secondaryContactIds r)"
  proof (intro allI impI)
    fix r assume "fst (identify now em phone d) = Json r"
    then have "buildResponse (getAllContactsLinkedToPrimary ?u ?d') = Inr r"
      by (rule identify_matched_Json [OF prims])
    then show "primaryContactId r = ?u \<and> id_c ` set demoted \<subseteq> set (secondaryContactIds r)"
      using matched_response [OF prims assms(3) rows secondary] by auto
  qed
  have 6: "fits 255 em \<and> fits 15 phone \<longrightarrow> (\<exists>r. fst (identify now em phone d) = Json r)"
    using ok by blast
  show ?thesis
    by (intro exI [of _ ultimatePrimary] exI [of _ demoted] conjI prims 0 1 2 3 4 5 6)
qed

text \<open>The same on the example store: the request \<open>a@x.com\<close>, \<open>333\<close> matches the primary
  \<open>ex_A\<close> and the secondary \<open>ex_C\<close> of the younger primary \<open>ex_B\<close>.\<close>

lemma earliest_millisecond_primary_wins_example:
  "list_ex (involved (Some ''a@x.com'') (Some ''333'') ex_db) (contact ex_db) \<and>
   allPrimaryContacts (Some ''a@x.com'') (Some ''333'') ex_db = [ex_A, ex_B] \<and>
   getTime (createdat ex_A) < getTime (createdat ex_B) \<and>
   identify 100 (Some ''a@x.com'') (Some ''333'') ex_db =
     (Json \<lparr>primaryContactId = 1, emails = [''a@x.com'', ''b@x.com''],
           phoneNumbers = [''111'', ''222'', ''333''], secondaryContactIds = [2, 3]\<rparr>,
      \<lparr>contact = [ex_A, ex_B\<lparr>linkedid := Some 1, linkprecedence := Secondary, updateat := 100\<rparr>,
          ex_C\<lparr>linkedid := Some 1, updateat := 100\<rparr>], contact_id_seq = 3\<rparr>)"
  by (simp add: model_defs involved_def ex_defs Let_def)

section \<open>The claims\<close>

text \<open>
  C9. Submitting the email \<^verbatim>\<open>a@x.com\<close> with no phone against a store with no rows creates
  exactly one contact, primary and without a link, and answers with that contact's key,
  \<^verbatim>\<open>emails = ["a@x.com"]\<close>, \<^verbatim>\<open>phoneNumbers = []\<close> and \<^verbatim>\<open>secondaryContactIds = []\<close>.
\<close>

theorem no_match_creates_primary:
  "identify now (Some ''a@x.com'') None (d\<lparr>contact := []\<rparr>) =
     (Json \<lparr>primaryContactId = contact_id_seq d + 1, emails = [''a@x.com''], phoneNumbers = [],
            secondaryContactIds = []\<rparr>,
      \<lparr>contact = [\<lparr>id_c = contact_id_seq d + 1, phonenumber = None, email = Some ''a@x.com'',
                    linkedid = None, linkprecedence = Primary, createdat = now, updateat = now,
                    deletedat = None\<rparr>],
       contact_id_seq = contact_id_seq d + 1\<rparr>)"
  by (simp add: model_defs Let_def)

text \<open>
  C8, as stated: the response builder fails on a membership with no primary or with more
  than one. It does not fail on two primaries: \<^verbatim>\<open>find\<close> takes the first.
\<close>

theorem buildResponse_two_primaries_succeeds:
  "buildResponse [ex_A, ex_B] =
     Inr \<lparr>primaryContactId = 1, emails = [''a@x.com'', ''b@x.com''],
          phoneNumbers = [''111'', ''222''], secondaryContactIds = []\<rparr>"
  by (simp add: model_defs ex_defs)

text \<open>
  C8, amended: the response builder fails (a \<^verbatim>\<open>TypeError\<close>) when the membership has no
  primary; with one primary or more it answers with the key of the first primary in
  membership order, the deduplicated emails and phones of all members and the keys of
  all secondaries.
\<close>

theorem buildResponse_fails_iff_no_primary:
  "(filter (\<lambda>c. linkprecedence c = Primary) contacts = [] \<longrightarrow>
      buildResponse contacts = Inl TypeError) \<and>
   (\<forall>p ps. filter (\<lambda>c. linkprecedence c = Primary) contacts = p # ps \<longrightarrow>
      buildResponse contacts =
        Inr \<lparr>primaryContactId = id_c p, emails = getAllEmails contacts,
             phoneNumbers = getAllPhones contacts,
             secondaryContactIds =
               map id_c (filter (\<lambda>c. linkprecedence c = Secondary) contacts)\<rparr>)"
  by (simp add: buildResponse_def find_filter)

theorem buildResponse_fails_iff_no_primary_witness:
  "buildResponse [ex_C] = Inl TypeError \<and>
   buildResponse [ex_C, ex_B, ex_A] =
     Inr \<lparr>primaryContactId = 2, emails = [''b@x.com'', ''a@x.com''],
          phoneNumbers = [''333'', ''222'', ''111''], secondaryContactIds = [3]\<rparr>"
  using buildResponse_fails_iff_no_primary [of "[ex_C]"]
    buildResponse_fails_iff_no_primary [of "[ex_C, ex_B, ex_A]"]
  by (simp add: ex_defs getAllEmails_def getAllPhones_def new_Set_def set_add_def)

text \<open>
  C6, as stated: a request with neither email nor phone is rejected before any core
  logic runs, creates no row and produces no success response. The handler has no
  validation: the lookup returns no match and the no-match path creates a primary.
\<close>

theorem empty_request_creates_primary_example:
  "identify 100 None None \<lparr>contact = [], contact_id_seq = 0\<rparr> =
     (Json \<lparr>primaryContactId = 1, emails = [], phoneNumbers = [], secondaryContactIds = []\<rparr>,
      \<lparr>contact = [\<lparr>id_c = 1, phonenumber = None, email = None, linkedid = None,
                    linkprecedence = Primary, createdat = 100, updateat = 100,
                    deletedat = None\<rparr>],
       contact_id_seq = 1\<rparr>)"
  by (simp add: model_defs Let_def)

text \<open>
  C6, amended: a request whose email and phone are both absent or empty is not
  validated; the lookup is skipped, one new primary contact without a link is inserted
  with the submitted (absent or empty) fields, and the handler answers with success: the
  new key, no emails, no phone numbers, no secondaries.
\<close>

theorem empty_request_creates_primary:
  assumes "\<not> truthy_str em" and "\<not> truthy_str phone"
  shows "identify now em phone d =
     (Json \<lparr>primaryContactId = contact_id_seq d + 1, emails = [], phoneNumbers = [],
            secondaryContactIds = []\<rparr>,
      d\<lparr>contact := contact d @
           [\<lparr>id_c = contact_id_seq d + 1, phonenumber = phone, email = em, linkedid = None,
             linkprecedence = Primary, createdat = now, updateat = now, deletedat = None\<rparr>],
        contact_id_seq := contact_id_seq d + 1\<rparr>)"
  using assms
  by (simp add: identify_def identify_body_def findContactsByEmailOrPhone_def createContact_def
      falsy_fits Let_def)

theorem empty_request_creates_primary_witness:
  "\<not> truthy_str (Some '''') \<and> \<not> truthy_str None \<and>
   identify 7 (Some '''') None ex_db =
     (Json \<lparr>primaryContactId = 4, emails = [], phoneNumbers = [], secondaryContactIds = []\<rparr>,
      \<lparr>contact = [ex_A, ex_B, ex_C,
                   \<lparr>id_c = 4, phonenumber = None, email = Some '''', linkedid = None,
                    linkprecedence = Primary, createdat = 7, updateat = 7, deletedat = None\<rparr>],
       contact_id_seq = 4\<rparr>)"
  using empty_request_creates_primary [of "Some ''''" None 7 ex_db]
  by (simp add: truthy_str_def ex_db_def)

text \<open>
  C4, as stated: the writes of a merge plan are atomic; if a write fails, the stored
  contacts are as before the request. Here two primaries share an email, the request
  brings that email and a phone too long for \<^verbatim>\<open>VARCHAR(15)\<close>: the second primary is
  demoted, the insert of the new secondary is rejected, the handler answers 500, and
  the demotion stays.
\<close>

theorem failed_merge_is_not_rolled_back:
  "fst (identify 100 (Some ''a@x.com'') (Some ''1234567890123456'')
          \<lparr>contact = [ex_A, ex_A2], contact_id_seq = 2\<rparr>) = InternalServerError \<and>
   contact (snd (identify 100 (Some ''a@x.com'') (Some ''1234567890123456'')
                   \<lparr>contact = [ex_A, ex_A2], contact_id_seq = 2\<rparr>)) =
     [ex_A, ex_A2\<lparr>linkedid := Some 1, linkprecedence := Secondary, updateat := 100\<rparr>] \<and>
   [ex_A, ex_A2\<lparr>linkedid := Some 1, linkprecedence := Secondary, updateat := 100\<rparr>] \<noteq>
     [ex_A, ex_A2]"
  by (simp add: model_defs ex_defs Let_def)

text \<open>
  C4, amended: the statements of a request run one by one with no transaction. When the
  request fails (the handler answers 500), nothing is rolled back: the stored rows are
  exactly the rows that the demotions and re-parentings of the merge loop have produced
  (the rows as they were when fewer than two primaries are involved), and no row has
  been inserted.
\<close>

theorem failure_keeps_completed_writes:
  assumes fail: "fst (identify now em phone d) = InternalServerError"
  shows "contact (snd (identify now em phone d)) =
     contact (demote now (id_c (hd (allPrimaryContacts em phone d)))
                (tl (allPrimaryContacts em phone d)) d)"
proof (cases "allPrimaryContacts em phone d")
  case Nil
  show ?thesis
  proof (cases "findContactsByEmailOrPhone em phone d = []")
    case True
    obtain res d' where c: "createContact now em phone None Primary d = (res, d')"
      by (cases "createContact now em phone None Primary d")
    show ?thesis
      using fail createContact_cases [OF c] True Nil c
      by (auto simp: identify_def identify_body_def split: sum.splits)
  next
    case False
    then show ?thesis using Nil by (simp add: identify_def identify_body_def)
  qed
next
  case (Cons u rest)
  then have ne: "findContactsByEmailOrPhone em phone d \<noteq> []"
    using no_match_no_primaries by fastforce
  let ?d1 = "demote now (id_c u) rest d"
  show ?thesis
  proof (cases "isNewEmail em phone d \<or> isNewPhone em phone d")
    case False
    have "\<exists>r. buildResponse (getAllContactsLinkedToPrimary (id_c u) ?d1) = Inr r"
      by (rule final_has_primary [OF Cons, of _ now "[]"]) simp
    then show ?thesis using fail False Cons ne
      by (auto simp: identify_def identify_body_def Let_def)
  next
    case True
    obtain res d2 where c: "createContact now (if isNewEmail em phone d then em else None)
        (if isNewPhone em phone d then phone else None) (Some (id_c u)) Secondary ?d1 = (res, d2)"
      by (cases "createContact now (if isNewEmail em phone d then em else None)
        (if isNewPhone em phone d then phone else None) (Some (id_c u)) Secondary ?d1")
    show ?thesis
    proof (cases res)
      case (Inl e)
      then show ?thesis using createContact_cases [OF c] True Cons ne c
        by (simp add: identify_def identify_body_def Let_def)
    next
      case (Inr row)
      then have "contact d2 = contact ?d1 @ [row]" using createContact_cases [OF c] by simp
      then have "\<exists>r. buildResponse (getAllContactsLinkedToPrimary (id_c u) d2) = Inr r"
        by (rule final_has_primary [OF Cons])
      then show ?thesis using fail True Cons ne c Inr
        by (auto simp: identify_def identify_body_def Let_def)
    qed
  qed
qed

theorem failure_keeps_completed_writes_witness:
  "fst (identify 100 (Some ''a@x.com'') (Some ''1234567890123456'') ex_db) = InternalServerError \<and>
   contact (snd (identify 100 (Some ''a@x.com'') (Some ''1234567890123456'') ex_db)) =
     [ex_A, ex_B, ex_C]"
proof -
  have f: "fst (identify 100 (Some ''a@x.com'') (Some ''1234567890123456'') ex_db) = InternalServerError"
    by (simp add: model_defs ex_defs Let_def)
  have p: "allPrimaryContacts (Some ''a@x.com'') (Some ''1234567890123456'') ex_db = [ex_A]"
    by (simp add: model_defs ex_defs Let_def)
  show ?thesis using failure_keeps_completed_writes [OF f] f p by (simp add: ex_db_def)
qed

text \<open>
  C10: whenever some non-deleted contact matches, the handler's ultimate primary is a
  defined contact, also when the primary of a matched secondary is soft-deleted. The
  code does not achieve that: a secondary whose primary is soft-deleted matches, the
  primary is not read back (\<^verbatim>\<open>deletedat IS NULL\<close>), the sorted list of primaries is empty,
  \<^verbatim>\<open>ultimatePrimary\<close> is \<^verbatim>\<open>undefined\<close> and reading its key throws: the answer is 500.
\<close>

theorem undefined_primary_when_linked_primary_deleted:
  "findContactsByEmailOrPhone (Some ''s@x.com'') None \<lparr>contact = [ex_D, ex_S], contact_id_seq = 2\<rparr>
     = [ex_S] \<and>
   allPrimaryContacts (Some ''s@x.com'') None \<lparr>contact = [ex_D, ex_S], contact_id_seq = 2\<rparr> = [] \<and>
   identify 100 (Some ''s@x.com'') None \<lparr>contact = [ex_D, ex_S], contact_id_seq = 2\<rparr> =
     (InternalServerError, \<lparr>contact = [ex_D, ex_S], contact_id_seq = 2\<rparr>)"
  by (simp add: model_defs ex_defs Let_def)

text \<open>
  C7: a soft-deleted contact is never a match and contributes nothing to a response.
  No matched contact is soft-deleted, and the handler answers exactly as it would on the
  store without its soft-deleted rows, leaving the other rows as it would leave them
  there.
\<close>

theorem soft_deleted_contacts_take_no_part:
  "list_all (\<lambda>c. deletedat c = None) (findContactsByEmailOrPhone em phone d) \<and>
   identify now em phone (purge d) =
     (fst (identify now em phone d), purge (snd (identify now em phone d)))"
proof -
  have "list_all (\<lambda>c. deletedat c = None) (findContactsByEmailOrPhone em phone d)"
    by (simp add: findContactsByEmailOrPhone_def list_all_iff)
  moreover have "identify now em phone (purge d) =
     (fst (identify now em phone d), purge (snd (identify now em phone d)))"
    by (simp add: identify_def identify_body_purge split: prod.splits sum.splits)
  ultimately show ?thesis by simp
qed

text \<open>
  C1: when the contacts matching a request involve two or more primaries, the primary
  with the earliest \<^verbatim>\<open>createdat\<close> is the ultimate primary; every other involved primary
  ends as a secondary linked to it; and the answer names the ultimate primary as
  \<^verbatim>\<open>primaryContactId\<close> and lists the demoted primaries among \<^verbatim>\<open>secondaryContactIds\<close>.
  The code orders the primaries by \<^verbatim>\<open>new Date(createdat).getTime()\<close>, which keeps the
  milliseconds of a timestamp the column stores in microseconds, and the sort is stable.
  The primaries \<open>ex_E\<close> and \<open>ex_F\<close> were created in the same millisecond, \<open>ex_E\<close> 400
  microseconds earlier, and \<open>ex_G\<close> is a secondary of \<open>ex_E\<close>. The request \<open>g@x.com\<close>,
  \<open>222\<close> matches \<open>ex_F\<close> and \<open>ex_G\<close>; \<open>ex_E\<close> is read back through the link of \<open>ex_G\<close>
  and sorted behind \<open>ex_F\<close>. The younger \<open>ex_F\<close> becomes the ultimate primary, the older
  \<open>ex_E\<close> is demoted under it, and the answer names \<open>ex_F\<close>.
\<close>

theorem older_by_microseconds_is_demoted:
  "createdat ex_E < createdat ex_F \<and>
   getTime (createdat ex_E) = getTime (createdat ex_F) \<and>
   findContactsByEmailOrPhone (Some ''g@x.com'') (Some ''222'')
     \<lparr>contact = [ex_E, ex_F, ex_G], contact_id_seq = 3\<rparr> = [ex_F, ex_G] \<and>
   allPrimaryContacts (Some ''g@x.com'') (Some ''222'')
     \<lparr>contact = [ex_E, ex_F, ex_G], contact_id_seq = 3\<rparr> = [ex_F, ex_E] \<and>
   identify 5000000 (Some ''g@x.com'') (Some ''222'')
     \<lparr>contact = [ex_E, ex_F, ex_G], contact_id_seq = 3\<rparr> =
     (Json \<lparr>primaryContactId = 2, emails = [''e@x.com'', ''f@x.com'', ''g@x.com''],
           phoneNumbers = [''111'', ''222''], secondaryContactIds = [1, 3]\<rparr>,
      \<lparr>contact =
         [ex_E\<lparr>linkedid := Some 2, linkprecedence := Secondary, updateat := 5000000\<rparr>,
          ex_F, ex_G\<lparr>linkedid := Some 2, updateat := 5000000\<rparr>],
       contact_id_seq = 3\<rparr>)"
  by (simp add: model_defs ex_E_def ex_F_def ex_G_def Let_def)

text \<open>
  C2: after a request no link leads to a secondary, given that none did before and that
  the store satisfies its schema (unique keys issued by the sequence, links that name a
  row). In particular, when a primary B is demoted under the ultimate primary A, every
  row that was linked to B is linked to A afterwards, and no row is linked to B.
\<close>

theorem no_chain_preserved:
  assumes "unique_ids d" and "ids_issued d" and "links_resolve d" and "no_chain d"
  shows "no_chain (snd (identify now em phone d)) \<and>
         (\<forall>a demoted. allPrimaryContacts em phone d = a # demoted \<longrightarrow>
            (\<forall>b \<in> set demoted.
               (\<forall>i < length (contact d). linkedid (contact d ! i) = Some (id_c b) \<longrightarrow>
                  linkedid (contact (snd (identify now em phone d)) ! i) = Some (id_c a)) \<and>
               (\<forall>c \<in> set (contact (snd (identify now em phone d))).
                  linkedid c \<noteq> Some (id_c b))))"
proof -
  have "no_chain (snd (identify now em phone d))"
  proof (cases "allPrimaryContacts em phone d")
    case Nil
    show ?thesis
    proof (cases "findContactsByEmailOrPhone em phone d = []")
      case True
      then show ?thesis by (rule no_chain_no_match [OF assms(4)])
    next
      case False
      then show ?thesis using identify_no_primary_store [OF False Nil] assms(4) by simp
    qed
  next
    case (Cons u rest)
    then show ?thesis by (rule no_chain_matched [OF assms])
  qed
  then show ?thesis using reparented_to_ultimate by blast
qed

theorem no_chain_preserved_witness:
  "unique_ids ex_db \<and> ids_issued ex_db \<and> links_resolve ex_db \<and> no_chain ex_db \<and>
   allPrimaryContacts (Some ''a@x.com'') (Some ''222'') ex_db = [ex_A, ex_B] \<and>
   linkedid (contact ex_db ! 2) = Some (id_c ex_B) \<and>
   no_chain (snd (identify 100 (Some ''a@x.com'') (Some ''222'') ex_db)) \<and>
   linkedid (contact (snd (identify 100 (Some ''a@x.com'') (Some ''222'') ex_db)) ! 2) =
     Some (id_c ex_A)"
proof -
  have h: "unique_ids ex_db" "ids_issued ex_db" "links_resolve ex_db" "no_chain ex_db"
    by (simp_all add: unique_ids_def ids_issued_def links_resolve_def no_chain_def ex_defs)
  have p: "allPrimaryContacts (Some ''a@x.com'') (Some ''222'') ex_db = [ex_A, ex_B]"
    by (simp add: model_defs ex_defs Let_def)
  have l: "linkedid (contact ex_db ! 2) = Some (id_c ex_B)"
    by (simp add: ex_defs)
  have "length (contact ex_db) = 3" by (simp add: ex_defs)
  then show ?thesis
    using no_chain_preserved [OF h, of 100 "Some ''a@x.com''" "Some ''222''"] h p l by simp
qed



text \<open>
  C5: re-submitting a pair that already fully matches a single cluster inserts no row,
  demotes and re-links nothing, and returns the response of the previous identical
  submission. The code writes nothing on the re-submission (\<open>noop_when_fully_matched\<close>),
  but the two responses can differ: the no-match path answers with
  \<^verbatim>\<open>[newContact.phonenumber].filter(p => p)\<close>, which drops an empty string, and every
  later answer comes from \<^verbatim>\<open>getAllPhones\<close>, which drops only \<^verbatim>\<open>null\<close>. The first
  submission of an email with an empty phone creates the contact and lists no phone; the
  second, which now fully matches that contact's cluster, lists the empty phone.
\<close>

theorem resubmission_with_empty_phone_differs:
  "identify 100 (Some ''a@x.com'') (Some '''') \<lparr>contact = [], contact_id_seq = 0\<rparr> =
     (Json \<lparr>primaryContactId = 1, emails = [''a@x.com''], phoneNumbers = [],
            secondaryContactIds = []\<rparr>,
      \<lparr>contact = [\<lparr>id_c = 1, phonenumber = Some '''', email = Some ''a@x.com'',
                    linkedid = None, linkprecedence = Primary, createdat = 100,
                    updateat = 100, deletedat = None\<rparr>],
       contact_id_seq = 1\<rparr>) \<and>
   fully_matches_one_cluster (Some ''a@x.com'') (Some '''')
      \<lparr>contact = [\<lparr>id_c = 1, phonenumber = Some '''', email = Some ''a@x.com'',
                    linkedid = None, linkprecedence = Primary, createdat = 100,
                    updateat = 100, deletedat = None\<rparr>],
       contact_id_seq = 1\<rparr> \<and>
   identify 200 (Some ''a@x.com'') (Some '''')
      \<lparr>contact = [\<lparr>id_c = 1, phonenumber = Some '''', email = Some ''a@x.com'',
                    linkedid = None, linkprecedence = Primary, createdat = 100,
                    updateat = 100, deletedat = None\<rparr>],
       contact_id_seq = 1\<rparr> =
     (Json \<lparr>primaryContactId = 1, emails = [''a@x.com''], phoneNumbers = [''''],
            secondaryContactIds = []\<rparr>,
      \<lparr>contact = [\<lparr>id_c = 1, phonenumber = Some '''', email = Some ''a@x.com'',
                    linkedid = None, linkprecedence = Primary, createdat = 100,
                    updateat = 100, deletedat = None\<rparr>],
       contact_id_seq = 1\<rparr>)"
  by (simp add: model_defs fully_matches_one_cluster_def spec_isNewEmail_def
      spec_isNewPhone_def spec_membership_def spec_clusters_def Let_def)



end
